theory Spec2Isabelle
  imports Main "HOL-Library.AList"
begin

section \<open>Python values and the object store\<close>

text \<open>
  The dictionaries handed to \<^verbatim>\<open>Sender.add_request\<close> are mutable Python objects that the
  caller, the dispatcher and the queued \<^verbatim>\<open>RequestData\<close> all reference. A dictionary is
  an association list (insertion order kept, as in Python), a reference is an address, and
  the store maps every address to the dictionary that lives there.
\<close>

datatype pyval = VStr string | VInt int | VDatetime nat

type_synonym pydict = "(string \<times> pyval) list"

type_synonym addr = nat

type_synonym store = "addr \<Rightarrow> pydict"

text \<open>\<^verbatim>\<open>d[k] = v\<close> on the dictionary object at address \<open>a\<close>.\<close>

definition setitem :: "addr \<Rightarrow> string \<Rightarrow> pyval \<Rightarrow> store \<Rightarrow> store" where
  "setitem a k v st = st(a := AList.update k v (st a))"

text \<open>\<^verbatim>\<open>d.get(k)\<close> on the dictionary object at address \<open>a\<close>.\<close>

definition getitem :: "store \<Rightarrow> addr \<Rightarrow> string \<Rightarrow> pyval option" where
  "getitem st a k = map_of (st a) k"

section \<open>The request queue (\<^verbatim>\<open>app/sender/__init__.py\<close>)\<close>

text \<open>
  \<^verbatim>\<open>RequestData = namedtuple('RequestData', 'id, module, url, data, files, callback')\<close>.
  \<open>data\<close> and \<open>files\<close> are references into the store; a callback is an opaque
  zero-argument function, identified by a number.
\<close>

record request_data =
  id_rd :: int
  module :: string
  url :: string
  data :: addr
  files :: "addr option"
  callback :: "nat option"

text \<open>
  The two exception classes caught by \<^verbatim>\<open>process_request\<close>:
  \<^verbatim>\<open>requests.exceptions.RequestException\<close> and \<^verbatim>\<open>APIError\<close>.
\<close>

datatype api_error = RequestException string | APIError string

text \<open>\<^verbatim>\<open>TracebackException.from_exception(exc_value)\<close>\<close>

datatype traceback_exception = TracebackException api_error

text \<open>
  What a call of \<^verbatim>\<open>api.create\<close> ends with (the API client, \<^verbatim>\<open>app.api\<close>, is not
  among the sources): it returns, it raises an exception of one of the two classes that
  \<^verbatim>\<open>process_request\<close> catches, or it raises an exception of another class, named by
  its text, which \<^verbatim>\<open>process_request\<close> does not catch.
\<close>

datatype api_outcome = Created | Raised api_error | Raised_other string

text \<open>
  Modelled from the spec: \<^verbatim>\<open>OutputLine\<close> and \<^verbatim>\<open>ParseError\<close> are declared in
  \<^verbatim>\<open>app/parser/__init__.py\<close>, which is not among the sources. The spec gives
  OutputLine the fields message id, timestamp and raw text (the constructor takes them in
  this order) and ParseError a message and a parser name that is absent until it is set.
\<close>

record output_line =
  message_id :: string
  timestamp :: nat
  raw_text :: string

record parse_error =
  message :: string
  parser_name :: "string option"

datatype level = Info | Warning | Exception

text \<open>
  Everything the program does to the outside: the \<^verbatim>\<open>on_*\<close> hooks of the sender and of
  the parser (Qt signals in \<^verbatim>\<open>QtSender\<close> and \<^verbatim>\<open>QtOutputParserWorker\<close>), the signals of
  the manager, the calls of \<^verbatim>\<open>api.create\<close> with their arguments and outcome, the
  calls of request callbacks, the log records (level, logger name, message) and the
  calls of \<^verbatim>\<open>sleep\<close> (in milliseconds).
\<close>

datatype event =
    Request_added request_data
  | Request_processing request_data
  | Request_processed request_data
  | Queue_paused bool
  | Error_occurred request_data api_error traceback_exception
  | Api_create string addr "addr option" api_outcome
  | Callback_called nat
  | Log level string string
  | Line_parsed output_line
  | Line_parse_failed output_line
  | Sleep nat
  | Parser_started
  | Parser_terminated

text \<open>
  \<^verbatim>\<open>Sender\<close>. \<open>id_snd\<close> is \<^verbatim>\<open>self.id\<close>. A \<^verbatim>\<open>threading.Condition\<close> is the list
  of the threads blocked in its \<^verbatim>\<open>wait()\<close>, oldest first; the two locks are the
  atomicity of the sections they guard.
\<close>

record sender =
  id_snd :: int
  paused :: bool
  skip_current :: bool
  queue :: "request_data list"
  not_empty :: "nat list"
  unpaused :: "nat list"
  heap :: store
  events :: "event list"

text \<open>\<^verbatim>\<open>Sender.__init__\<close>\<close>

definition init_sender :: "store \<Rightarrow> sender" where
  "init_sender st =
     \<lparr>id_snd = 1, paused = False, skip_current = False, queue = [],
      not_empty = [], unpaused = [], heap = st, events = []\<rparr>"

definition emit :: "event \<Rightarrow> sender \<Rightarrow> sender" where
  "emit e s = s\<lparr>events := events s @ [e]\<rparr>"

text \<open>\<^verbatim>\<open>Condition.notify()\<close>: wakes one waiting thread, the one that waited longest.\<close>

definition notify :: "nat list \<Rightarrow> nat list" where
  "notify ws = (case ws of [] \<Rightarrow> [] | w # rest \<Rightarrow> rest)"

text \<open>
  \<^verbatim>\<open>add_request\<close> (lines 44-67) has three parts, and other threads can run between
  them. Before it takes the lock it stamps the dictionary (lines 58-59); \<open>ts\<close> is the
  value of \<^verbatim>\<open>api.encode_datetime(datetime.utcnow())\<close>.
\<close>

definition stamp :: "pyval \<Rightarrow> addr \<Rightarrow> bool \<Rightarrow> sender \<Rightarrow> sender" where
  "stamp ts d append_timestamp s =
     (if append_timestamp
      then s\<lparr>heap := setitem d ''timestamp'' ts (heap s)\<rparr>
      else s)"

text \<open>
  Under the lock (lines 61-66) it creates the request with the next id, appends it to the
  queue and wakes a waiting consumer.
\<close>

definition enqueue ::
  "string \<Rightarrow> string \<Rightarrow> addr \<Rightarrow> addr option \<Rightarrow> nat option \<Rightarrow> sender
     \<Rightarrow> request_data \<times> sender" where
  "enqueue m u d f cb s =
     (let request_data = \<lparr>id_rd = id_snd s, module = m, url = u, data = d, files = f,
                          callback = cb\<rparr>
      in (request_data,
          s\<lparr>id_snd := id_snd s + 1,
            queue := queue s @ [request_data],
            not_empty := notify (not_empty s)\<rparr>))"

text \<open>After it has released the lock it notifies the observers (line 67).\<close>

definition on_request_added :: "request_data \<Rightarrow> sender \<Rightarrow> sender" where
  "on_request_added request_data s = emit (Request_added request_data) s"

text \<open>A call of \<^verbatim>\<open>add_request\<close> that no other thread interrupts.\<close>

definition add_request ::
  "pyval \<Rightarrow> string \<Rightarrow> string \<Rightarrow> addr \<Rightarrow> addr option \<Rightarrow> bool \<Rightarrow> nat option
     \<Rightarrow> sender \<Rightarrow> sender" where
  "add_request ts m u d f append_timestamp cb s =
     (case enqueue m u d f cb (stamp ts d append_timestamp s) of
        (request_data, s2) \<Rightarrow> on_request_added request_data s2)"

text \<open>\<^verbatim>\<open>set_paused\<close> (lines 108-117)\<close>

definition set_paused :: "bool \<Rightarrow> sender \<Rightarrow> sender" where
  "set_paused p s =
     (let s1 = s\<lparr>paused := p\<rparr>;
          s2 = (if \<not> p then s1\<lparr>unpaused := notify (unpaused s1)\<rparr> else s1)
      in emit (Queue_paused p) s2)"

text \<open>\<^verbatim>\<open>set_skip_current\<close> (lines 119-122)\<close>

definition set_skip_current :: "sender \<Rightarrow> sender" where
  "set_skip_current s = s\<lparr>skip_current := True\<rparr>"

subsection \<open>The consumer\<close>

text \<open>
  \<^verbatim>\<open>process_request\<close> blocks in three places: in \<^verbatim>\<open>not_empty.wait()\<close>, in
  \<^verbatim>\<open>unpaused.wait()\<close> and in the network call \<^verbatim>\<open>api.create\<close>. What the other
  threads do while it is blocked, and what the network answers, is the environment of
  the call: a script of the calls other threads make on the same sender and of the
  outcomes of \<^verbatim>\<open>api.create\<close>. A call of \<^verbatim>\<open>add_request\<close> in the script is one
  made, from its first line to its last, while the consumer is blocked. A call whose
  script ends while it is blocked has not returned: its result is \<open>Blocked\<close>, with the
  sender as it then stands. A call that ends by an exception it does not catch is
  \<open>Uncaught\<close>, with the text of the exception; \<open>Done\<close> is a call that has returned.
  Both keep the rest of the script.
\<close>

datatype env_event =
    Add_request pyval string string addr "addr option" bool "nat option"
  | Set_paused bool
  | Set_skip_current
  | Api_returns api_outcome

datatype 'a run =
    Blocked sender
  | Done 'a "env_event list" sender
  | Uncaught string "env_event list" sender

fun env_step :: "env_event \<Rightarrow> sender \<Rightarrow> sender" where
  "env_step (Add_request ts m u d f a cb) s = add_request ts m u d f a cb s"
| "env_step (Set_paused p) s = set_paused p s"
| "env_step Set_skip_current s = set_skip_current s"
| "env_step (Api_returns r) s = s"

text \<open>
  A blocked thread: the other threads run until the thread is woken (it is no longer in
  the waiter list it entered).
\<close>

fun run_others :: "(sender \<Rightarrow> bool) \<Rightarrow> env_event list \<Rightarrow> sender \<Rightarrow> unit run" where
  "run_others woken [] s = (if woken s then Done () [] s else Blocked s)"
| "run_others woken (e # env) s =
     (if woken s then Done () (e # env) s else run_others woken env (env_step e s))"

text \<open>\<^verbatim>\<open>self.not_empty.wait()\<close> and \<^verbatim>\<open>self.unpaused.wait()\<close> called by thread \<open>tid\<close>.\<close>

definition wait_not_empty :: "nat \<Rightarrow> env_event list \<Rightarrow> sender \<Rightarrow> unit run" where
  "wait_not_empty tid env s =
     run_others (\<lambda>s'. tid \<notin> set (not_empty s')) env (s\<lparr>not_empty := not_empty s @ [tid]\<rparr>)"

definition wait_unpaused :: "nat \<Rightarrow> env_event list \<Rightarrow> sender \<Rightarrow> unit run" where
  "wait_unpaused tid env s =
     run_others (\<lambda>s'. tid \<notin> set (unpaused s')) env (s\<lparr>unpaused := unpaused s @ [tid]\<rparr>)"

text \<open>
  \<^verbatim>\<open>self.api.create(url, data, files, requests_object=self.session)\<close>: the call is
  recorded with its arguments when the network answers.
\<close>

fun api_create ::
  "string \<Rightarrow> addr \<Rightarrow> addr option \<Rightarrow> env_event list \<Rightarrow> sender \<Rightarrow> api_outcome run" where
  "api_create u d f [] s = Blocked s"
| "api_create u d f (Api_returns r # env) s = Done r env (emit (Api_create u d f r) s)"
| "api_create u d f (e # env) s = api_create u d f env (env_step e s)"

text \<open>Lines 71-74: wait until the queue is not empty, then pop its head.\<close>

function pop_request :: "nat \<Rightarrow> env_event list \<Rightarrow> sender \<Rightarrow> request_data run" where
  "pop_request tid env s =
     (case queue s of
        [] \<Rightarrow> (case wait_not_empty tid env s of
                 Blocked s' \<Rightarrow> Blocked s'
               | Done _ env' s' \<Rightarrow> pop_request tid env' s'
               | Uncaught x env' s' \<Rightarrow> Uncaught x env' s')
      | request_data # rest \<Rightarrow> Done request_data env (s\<lparr>queue := rest\<rparr>))"
  by pat_completeness auto
termination
proof -
  have le: "run_others woken es t = Done y es' t' \<Longrightarrow> length es' \<le> length es"
    for woken es t y es' t'
    by (induction woken es t rule: run_others.induct) (auto split: if_splits)
  have lt: "wait_not_empty tid es t = Done y es' t' \<Longrightarrow> length es' < length es"
    for tid es t y es' t'
    unfolding wait_not_empty_def by (cases es) (auto split: if_splits dest: le)
  show ?thesis
    by (relation "measure (\<lambda>(tid, env, s). length env)") (auto dest!: lt)
qed

text \<open>Lines 80-82: \<^verbatim>\<open>if self.paused: self.unpaused.wait()\<close>\<close>

definition pause_check :: "nat \<Rightarrow> env_event list \<Rightarrow> sender \<Rightarrow> unit run" where
  "pause_check tid env s = (if paused s then wait_unpaused tid env s else Done () env s)"

text \<open>\<^verbatim>\<open>str(exc_value)\<close>\<close>

definition str_exc :: "api_error \<Rightarrow> string" where
  "str_exc e = (case e of RequestException m \<Rightarrow> m | APIError m \<Rightarrow> m)"

text \<open>Lines 94-100: the handler of a failed submission.\<close>

definition on_api_error :: "request_data \<Rightarrow> api_error \<Rightarrow> sender \<Rightarrow> sender" where
  "on_api_error request_data exc_value s =
     (let s1 = emit (Log Exception ''sender'' (''Could not send request: '' @ str_exc exc_value)) s;
          tb_exc = TracebackException exc_value;
          s2 = emit (Error_occurred request_data exc_value tb_exc) s1
      in set_paused True s2)"

text \<open>
  Lines 76-102: the retry loop. It ends by \<^verbatim>\<open>break\<close> (\<open>Skipped\<close>), or because
  \<^verbatim>\<open>repeat\<close> stayed false after a submission (\<open>Submitted\<close>), or by an exception
  of \<^verbatim>\<open>api.create\<close> that the \<^verbatim>\<open>except\<close> clause does not name.
\<close>

datatype loop_exit = Submitted | Skipped

function retry_loop :: "nat \<Rightarrow> request_data \<Rightarrow> env_event list \<Rightarrow> sender \<Rightarrow> loop_exit run" where
  "retry_loop tid request_data env s =
     (case pause_check tid env s of
        Blocked s' \<Rightarrow> Blocked s'
      | Uncaught x env' s' \<Rightarrow> Uncaught x env' s'
      | Done _ env1 s1 \<Rightarrow>
          if skip_current s1 then Done Skipped env1 (s1\<lparr>skip_current := False\<rparr>)
          else
            (case api_create (url request_data) (data request_data) (files request_data) env1
                    (emit (Request_processing request_data) s1) of
               Blocked s' \<Rightarrow> Blocked s'
             | Uncaught x env' s' \<Rightarrow> Uncaught x env' s'
             | Done Created env2 s2 \<Rightarrow> Done Submitted env2 s2
             | Done (Raised_other x) env2 s2 \<Rightarrow> Uncaught x env2 s2
             | Done (Raised exc_value) env2 s2 \<Rightarrow>
                 retry_loop tid request_data env2 (on_api_error request_data exc_value s2)))"
  by pat_completeness auto
termination
proof -
  have le: "run_others woken es t = Done y es' t' \<Longrightarrow> length es' \<le> length es"
    for woken es t y es' t'
    by (induction woken es t rule: run_others.induct) (auto split: if_splits)
  have lt: "api_create u d f es t = Done r es' t' \<Longrightarrow> length es' < length es"
    for u d f es t r es' t'
    by (induction u d f es t rule: api_create.induct) auto
  have pc: "pause_check tid es t = Done y es' t' \<Longrightarrow> length es' \<le> length es"
    for tid es t y es' t'
    by (auto simp: pause_check_def wait_unpaused_def split: if_splits dest: le)
  show ?thesis
    by (relation "measure (\<lambda>(tid, rd, env, s). length env)") (auto dest!: lt pc)
qed

text \<open>\<^verbatim>\<open>process_request\<close> (lines 69-106), called by thread \<open>tid\<close>.\<close>

definition process_request :: "nat \<Rightarrow> env_event list \<Rightarrow> sender \<Rightarrow> unit run" where
  "process_request tid env s =
     (case pop_request tid env s of
        Blocked s' \<Rightarrow> Blocked s'
      | Uncaught x env' s' \<Rightarrow> Uncaught x env' s'
      | Done request_data env1 s1 \<Rightarrow>
          (case retry_loop tid request_data env1 s1 of
             Blocked s' \<Rightarrow> Blocked s'
           | Uncaught x env' s' \<Rightarrow> Uncaught x env' s'
           | Done _ env2 s2 \<Rightarrow>
               (let s3 = emit (Request_processed request_data) s2;
                    s4 = (case callback request_data of
                            None \<Rightarrow> s3
                          | Some cb \<Rightarrow> emit (Callback_called cb) s3)
                in Done () env2 s4)))"

subsection \<open>What a call leaves behind\<close>

definition state_of :: "'a run \<Rightarrow> sender" where
  "state_of r = (case r of Blocked s \<Rightarrow> s | Done _ _ s \<Rightarrow> s | Uncaught _ _ s \<Rightarrow> s)"

text \<open>The part of the script that a call has not read; a blocked call has read it all.\<close>

definition rest_of :: "'a run \<Rightarrow> env_event list" where
  "rest_of r = (case r of Blocked _ \<Rightarrow> [] | Done _ env _ \<Rightarrow> env | Uncaught _ env _ \<Rightarrow> env)"

text \<open>The part of the script \<open>env\<close> that the call with the result \<open>r\<close> has read.\<close>

definition consumed :: "env_event list \<Rightarrow> 'a run \<Rightarrow> env_event list" where
  "consumed env r = take (length env - length (rest_of r)) env"

text \<open>The item that lines 71-74 popped in a call of \<^verbatim>\<open>process_request\<close>, if they did.\<close>

definition popped_by :: "nat \<Rightarrow> env_event list \<Rightarrow> sender \<Rightarrow> request_data list" where
  "popped_by tid env s = (case pop_request tid env s of Done rd _ _ \<Rightarrow> [rd] | _ \<Rightarrow> [])"

subsection \<open>Sequences of calls\<close>

text \<open>
  The requests that the calls of \<^verbatim>\<open>add_request\<close> in a script are to create, in the
  order of the calls, when the first of them gets the id \<open>n\<close>: one request for each
  call, with the arguments of the call and the next id.
\<close>

fun created_by :: "int \<Rightarrow> env_event list \<Rightarrow> request_data list" where
  "created_by n [] = []"
| "created_by n (Add_request ts m u d f a cb # es) =
     \<lparr>id_rd = n, module = m, url = u, data = d, files = f, callback = cb\<rparr> #
     created_by (n + 1) es"
| "created_by n (e # es) = created_by n es"

text \<open>
  A producer thread is outside \<^verbatim>\<open>add_request\<close>, or it has stamped the dictionary
  and is about to take the lock, or it has released the lock and is about to notify the
  observers of the request it created.
\<close>

datatype producer =
    Idle
  | Stamped string string addr "addr option" "nat option"
  | Enqueued request_data

text \<open>
  The sender with its producer threads. \<open>expected\<close> and \<open>popped\<close> are not state of
  the program: \<open>expected\<close> lists the requests that the calls made so far are to create,
  numbered \<open>1, 2, ...\<close> in the order in which the calls took the lock, and \<open>popped\<close>
  lists the items that lines 71-74 returned, in that order.
\<close>

record system =
  the_sender :: sender
  producers :: "nat \<Rightarrow> producer"
  expected :: "request_data list"
  popped :: "request_data list"

definition init_system :: "store \<Rightarrow> system" where
  "init_system st =
     \<lparr>the_sender = init_sender st, producers = (\<lambda>tid. Idle), expected = [], popped = []\<rparr>"

text \<open>
  The steps of a run. A producer \<open>tid\<close> makes its call of \<^verbatim>\<open>add_request\<close> in three
  steps, between which any other step can come: \<open>Add_stamp\<close> (lines 58-59),
  \<open>Add_locked\<close> (lines 61-66) and \<open>Add_hook\<close> (line 67); a step that is not the
  next one of its thread does nothing. \<open>By_other\<close> is a whole call of
  \<^verbatim>\<open>add_request\<close>, \<^verbatim>\<open>set_paused\<close> or \<^verbatim>\<open>set_skip_current\<close>, and
  \<open>Process_request\<close> a call of \<^verbatim>\<open>process_request\<close> by thread \<open>tid\<close> with the
  environment it meets.
\<close>

datatype call =
    Add_stamp nat pyval string string addr "addr option" bool "nat option"
  | Add_locked nat
  | Add_hook nat
  | By_other env_event
  | Process_request nat "env_event list"

fun call_step :: "call \<Rightarrow> system \<Rightarrow> system" where
  "call_step (Add_stamp tid ts m u d f a cb) sys =
     (case producers sys tid of
        Idle \<Rightarrow> sys\<lparr>the_sender := stamp ts d a (the_sender sys),
                    producers := (producers sys)(tid := Stamped m u d f cb)\<rparr>
      | _ \<Rightarrow> sys)"
| "call_step (Add_locked tid) sys =
     (case producers sys tid of
        Stamped m u d f cb \<Rightarrow>
          (case enqueue m u d f cb (the_sender sys) of
             (rd, s') \<Rightarrow>
               sys\<lparr>the_sender := s',
                   producers := (producers sys)(tid := Enqueued rd),
                   expected := expected sys @
                     [\<lparr>id_rd = 1 + int (length (expected sys)), module = m, url = u,
                       data = d, files = f, callback = cb\<rparr>]\<rparr>)
      | _ \<Rightarrow> sys)"
| "call_step (Add_hook tid) sys =
     (case producers sys tid of
        Enqueued rd \<Rightarrow>
          sys\<lparr>the_sender := on_request_added rd (the_sender sys),
              producers := (producers sys)(tid := Idle)\<rparr>
      | _ \<Rightarrow> sys)"
| "call_step (By_other e) sys =
     sys\<lparr>the_sender := env_step e (the_sender sys),
         expected := expected sys @ created_by (1 + int (length (expected sys))) [e]\<rparr>"
| "call_step (Process_request tid env) sys =
     (let r = process_request tid env (the_sender sys)
      in sys\<lparr>the_sender := state_of r,
             expected := expected sys @
               created_by (1 + int (length (expected sys))) (consumed env r),
             popped := popped sys @ popped_by tid env (the_sender sys)\<rparr>)"

fun run_calls :: "call list \<Rightarrow> system \<Rightarrow> system" where
  "run_calls [] sys = sys"
| "run_calls (c # cs) sys = run_calls cs (call_step c sys)"

text \<open>The requests whose observers were notified, in the order of the notifications.\<close>

fun added_of :: "event \<Rightarrow> request_data list" where
  "added_of (Request_added rd) = [rd]"
| "added_of _ = []"

definition added :: "event list \<Rightarrow> request_data list" where
  "added evs = concat (map added_of evs)"

text \<open>
  The invariant of the queue: the items popped so far followed by the items still queued
  are the expected requests, in the order of their ids, and the next id is the one after
  the last.
\<close>

definition fifo_inv :: "system \<Rightarrow> bool" where
  "fifo_inv sys \<longleftrightarrow>
     popped sys @ queue (the_sender sys) = expected sys \<and>
     id_snd (the_sender sys) = 1 + int (length (expected sys)) \<and>
     map id_rd (expected sys) = [1..int (length (expected sys))]"

text \<open>
  What a call has done to the queue when it has read the part \<open>c\<close> of its script and
  popped the items \<open>p\<close>: the queue has lost \<open>p\<close> at its head and gained at its tail
  the requests of the calls of \<^verbatim>\<open>add_request\<close> in \<open>c\<close>, numbered from the next id on.
\<close>

definition accounts ::
  "request_data list \<Rightarrow> env_event list \<Rightarrow> sender \<Rightarrow> sender \<Rightarrow> bool" where
  "accounts p c s s' \<longleftrightarrow>
     p @ queue s' = queue s @ created_by (id_snd s) c \<and>
     id_snd s' = id_snd s + int (length (created_by (id_snd s) c))"

text \<open>
  What a call has done when it has read the part \<open>c\<close> of its script without popping:
  it accounts for the queue, and \<^verbatim>\<open>skip_current\<close> is set afterwards only if it was
  set before or \<open>c\<close> holds a call of \<^verbatim>\<open>set_skip_current\<close>.
\<close>

definition reads :: "env_event list \<Rightarrow> sender \<Rightarrow> sender \<Rightarrow> bool" where
  "reads c s s' \<longleftrightarrow>
     accounts [] c s s' \<and> (skip_current s' \<longrightarrow> skip_current s \<or> Set_skip_current \<in> set c)"

subsection \<open>What a call adds to the record of events\<close>

text \<open>The events recorded between the states \<open>s\<close> and \<open>s'\<close>.\<close>

definition new_events :: "sender \<Rightarrow> sender \<Rightarrow> event list" where
  "new_events s s' = drop (length (events s)) (events s')"

text \<open>
  The events that the retry loop for the item \<open>rd\<close> may record: its own events name
  \<open>rd\<close> and the fields of \<open>rd\<close>; the events of the other threads are those of
  \<^verbatim>\<open>add_request\<close> and \<^verbatim>\<open>set_paused\<close>.
\<close>

fun concerns :: "request_data \<Rightarrow> event \<Rightarrow> bool" where
  "concerns rd (Request_processing x) = (x = rd)"
| "concerns rd (Api_create u d f r) = (u = url rd \<and> d = data rd \<and> f = files rd)"
| "concerns rd (Error_occurred x e tb) = (x = rd \<and> tb = TracebackException e)"
| "concerns rd (Log l n m) = (l = Exception \<and> n = ''sender'')"
| "concerns rd (Request_added x) = True"
| "concerns rd (Queue_paused b) = True"
| "concerns rd _ = False"

text \<open>The events recorded by the calls of other threads.\<close>

fun by_others :: "event \<Rightarrow> bool" where
  "by_others (Request_added x) = True"
| "by_others (Queue_paused b) = True"
| "by_others _ = False"

text \<open>
  From \<open>s\<close> to \<open>s'\<close> the queue has only grown at its tail, and the record of events
  has only grown, by events that satisfy \<open>P\<close>.
\<close>

definition grows :: "(event \<Rightarrow> bool) \<Rightarrow> sender \<Rightarrow> sender \<Rightarrow> bool" where
  "grows P s s' \<longleftrightarrow>
     (\<exists>q. queue s' = queue s @ q) \<and>
     (\<exists>new. events s' = events s @ new \<and> list_all P new)"

text \<open>The successful submissions in a record of events.\<close>

fun created_of :: "event \<Rightarrow> event list" where
  "created_of (Api_create u d f Created) = [Api_create u d f Created]"
| "created_of _ = []"


text \<open>An event that concerns \<open>rd\<close> and is not a successful submission.\<close>

definition failed_attempt :: "request_data \<Rightarrow> event \<Rightarrow> bool" where
  "failed_attempt rd e \<longleftrightarrow> concerns rd e \<and> created_of e = []"



subsection \<open>A sender with one request\<close>

text \<open>
  The examples below use a store with one dictionary, at address 7, and the sender
  after one call \<^verbatim>\<open>add_request('GPS', '/gps/', d, callback=cb)\<close> for it.
\<close>

definition example_store :: store where
  "example_store = (\<lambda>a. [])(7 := [(''lat'', VInt 50)])"

definition example_request :: request_data where
  "example_request =
     \<lparr>id_rd = 1, module = ''GPS'', url = ''/gps/'', data = 7, files = None, callback = Some 3\<rparr>"

definition example_sender :: sender where
  "example_sender =
     add_request (VStr ''12:00:00'') ''GPS'' ''/gps/'' 7 None True (Some 3)
       (init_sender example_store)"

text \<open>
  A second request is added, the queue is paused, and two threads call
  \<^verbatim>\<open>process_request\<close>: each pops an item and waits to be unpaused.
\<close>

definition two_consumers_waiting :: sender where
  "two_consumers_waiting =
     state_of (process_request 2 []
       (state_of (process_request 1 []
          (set_paused True
             (add_request (VStr ''12:00:01'') ''GPS'' ''/gps/'' 7 None False None
                example_sender)))))"

text \<open>
  Two producers call \<^verbatim>\<open>add_request\<close> at the same time: thread 1 takes the lock
  first, thread 2 notifies its observers first.
\<close>

definition two_producers :: "call list" where
  "two_producers =
     [Add_stamp 1 (VStr ''12:00:00'') ''GPS'' ''/gps/'' 7 None True (Some 3),
      Add_stamp 2 (VStr ''12:00:01'') ''Telemetry'' ''/telemetry/'' 8 None True None,
      Add_locked 1, Add_locked 2, Add_hook 2, Add_hook 1]"

section \<open>The line dispatcher and the tail reader (\<^verbatim>\<open>app/parser/outputparser.py\<close>)\<close>

text \<open>
  A registered parser, as \<^verbatim>\<open>parse_line\<close> uses it: its class name, its \<^verbatim>\<open>url\<close>,
  \<^verbatim>\<open>can_parse\<close> (a message id, or \<^verbatim>\<open>None\<close>) and \<^verbatim>\<open>parse\<close>, which raises a
  ParseError or returns \<^verbatim>\<open>None\<close> or a reference to a dictionary it has built in the
  store. The classes themselves (\<^verbatim>\<open>GPSParser\<close>, \<^verbatim>\<open>TelemetryParser\<close>,
  \<^verbatim>\<open>KundtParser\<close>) are not among the sources: every function below takes the
  parsers as they come.
\<close>

record parser =
  class_name :: string
  url_parser :: string
  can_parse :: "string \<Rightarrow> string option"
  parse :: "output_line \<Rightarrow> store \<Rightarrow> (parse_error + addr option) \<times> store"

text \<open>\<^verbatim>\<open>BaseOutputParser\<close>; \<open>trace\<close> records its hooks, log records and sleeps.\<close>

record base_output_parser =
  parsers :: "parser list"
  sender :: sender
  is_terminated :: bool
  trace :: "event list"

text \<open>\<^verbatim>\<open>BaseOutputParser.__init__\<close>\<close>

definition init_parser :: "parser list \<Rightarrow> sender \<Rightarrow> base_output_parser" where
  "init_parser ps sndr = \<lparr>parsers = ps, sender = sndr, is_terminated = False, trace = []\<rparr>"

definition emit_p :: "event \<Rightarrow> 'a base_output_parser_scheme \<Rightarrow> 'a base_output_parser_scheme" where
  "emit_p e p = p\<lparr>trace := trace p @ [e]\<rparr>"

text \<open>\<^verbatim>\<open>if msg_id:\<close> a message id that is \<^verbatim>\<open>None\<close> or empty is falsy.\<close>

definition truthy_id :: "string option \<Rightarrow> string option" where
  "truthy_id m = (case m of None \<Rightarrow> None | Some i \<Rightarrow> if i = [] then None else Some i)"

text \<open>\<^verbatim>\<open>if data:\<close> \<^verbatim>\<open>None\<close> and the empty dictionary are falsy.\<close>

definition truthy_data :: "addr option \<Rightarrow> store \<Rightarrow> addr option" where
  "truthy_data d st = (case d of None \<Rightarrow> None | Some a \<Rightarrow> if st a = [] then None else Some a)"

datatype outcome = Returns | Raises parse_error

text \<open>
  \<^verbatim>\<open>parse_line\<close> (lines 78-98): the \<^verbatim>\<open>for\<close> loop over the parsers still to be tried.
  \<open>now\<close> is the reading of \<^verbatim>\<open>datetime.now()\<close>.
\<close>

fun parse_line_from ::
  "parser list \<Rightarrow> nat \<Rightarrow> string \<Rightarrow> 'a base_output_parser_scheme
     \<Rightarrow> outcome \<times> 'a base_output_parser_scheme" where
  "parse_line_from [] now line p =
     (Raises \<lparr>message = ''Line was not parsed by any parser'', parser_name = None\<rparr>, p)"
| "parse_line_from (parser # rest) now line p =
     (case truthy_id (can_parse parser line) of
        None \<Rightarrow> parse_line_from rest now line p
      | Some msg_id \<Rightarrow>
          (let parser_name' = class_name parser;
               output_line = \<lparr>message_id = msg_id, timestamp = now, raw_text = line\<rparr>
           in case parse parser output_line (heap (sender p)) of
                (Inl e, st) \<Rightarrow>
                  (Raises (e\<lparr>parser_name := Some parser_name'\<rparr>),
                   emit_p (Line_parse_failed output_line) (p\<lparr>sender := (sender p)\<lparr>heap := st\<rparr>\<rparr>))
              | (Inr d, st) \<Rightarrow>
                  (let p1 = emit_p (Line_parsed output_line) (p\<lparr>sender := (sender p)\<lparr>heap := st\<rparr>\<rparr>)
                   in case truthy_data d st of
                        None \<Rightarrow> (Returns, p1)
                      | Some a \<Rightarrow>
                          (let snd1 = (sender p1)
                                 \<lparr>heap := setitem a ''timestamp''
                                            (VDatetime (timestamp output_line)) (heap (sender p1))\<rparr>;
                               snd2 = add_request (VDatetime now) parser_name' (url_parser parser)
                                        a None False None snd1
                           in (Returns, p1\<lparr>sender := snd2\<rparr>)))))"

definition parse_line ::
  "nat \<Rightarrow> string \<Rightarrow> 'a base_output_parser_scheme \<Rightarrow> outcome \<times> 'a base_output_parser_scheme" where
  "parse_line now line p = parse_line_from (parsers p) now line p"

text \<open>\<^verbatim>\<open>mark_terminated\<close> (lines 100-107)\<close>

definition mark_terminated :: "'a base_output_parser_scheme \<Rightarrow> 'a base_output_parser_scheme" where
  "mark_terminated p = p\<lparr>is_terminated := True\<rparr>"

text \<open>\<^verbatim>\<open>line.rstrip('\r\n')\<close>\<close>

definition rstrip_crlf :: "string \<Rightarrow> string" where
  "rstrip_crlf l = rev (dropWhile (\<lambda>c. c = CHR 0x0D \<or> c = CHR 0x0A) (rev l))"

text \<open>
  The logger of the driving loop: \<^verbatim>\<open>logging.getLogger(e.parser_name) if e.parser_name
  else self.logger\<close>, and \<^verbatim>\<open>str(e)\<close>.
\<close>

definition logger_of :: "parse_error \<Rightarrow> string" where
  "logger_of e = (case parser_name e of
                    None \<Rightarrow> ''Parser''
                  | Some n \<Rightarrow> if n = [] then ''Parser'' else n)"

text \<open>
  The tail reader runs for as long as its file is followed. What it meets is a script:
  each \<^verbatim>\<open>f.readline()\<close> returns the next \<open>Readline\<close> (the text read, empty when
  there is no data or at the end of the file, and the clock reading for that line), and
  \<open>Mark_terminated\<close> is a call of \<^verbatim>\<open>mark_terminated\<close> by another thread between
  two iterations. \<open>Running\<close> says that the script ended with the loop still going:
  \<^verbatim>\<open>parse_file\<close> has not returned.
\<close>

datatype file_event = Readline string nat | Mark_terminated

datatype status = Returned | Running

text \<open>Lines 44-63: the loop of \<^verbatim>\<open>parse_file\<close>.\<close>

fun parse_file_loop ::
  "file_event list \<Rightarrow> 'a base_output_parser_scheme \<Rightarrow> status \<times> 'a base_output_parser_scheme" where
  "parse_file_loop [] p = (if is_terminated p then Returned else Running, p)"
| "parse_file_loop (ev # evs) p =
     (if is_terminated p then (Returned, p)
      else case ev of
        Mark_terminated \<Rightarrow> parse_file_loop evs (mark_terminated p)
      | Readline line now \<Rightarrow>
          if line = [] then parse_file_loop evs (emit_p (Sleep 50) p)
          else
            (let line' = rstrip_crlf line
             in if line' = []
                then parse_file_loop evs (emit_p (Log Warning ''Parser'' ''Empty line received'') p)
                else
                  (case parse_line now line' p of
                     (Returns, p') \<Rightarrow> parse_file_loop evs p'
                   | (Raises e, p') \<Rightarrow>
                       parse_file_loop evs
                         (emit_p (Log Exception (logger_of e)
                                  (''Could not parse line: '' @ line' @ '' ('' @ message e @ '')''))
                            p'))))"

datatype os_error = OSError string

text \<open>
  \<^verbatim>\<open>parse_file\<close> (lines 35-63). \<open>os_open\<close> says for which file names
  \<^verbatim>\<open>os.open\<close> raises, and with what.
\<close>

definition parse_file ::
  "(string \<Rightarrow> os_error option) \<Rightarrow> string \<Rightarrow> file_event list \<Rightarrow> 'a base_output_parser_scheme
     \<Rightarrow> (os_error + status) \<times> 'a base_output_parser_scheme" where
  "parse_file os_open filename evs p =
     (case os_open filename of
        Some err \<Rightarrow> (Inl err, p)
      | None \<Rightarrow> (case parse_file_loop evs p of (st, p') \<Rightarrow> (Inr st, p')))"

section \<open>The parser manager\<close>

text \<open>
  \<^verbatim>\<open>QtOutputParserWorker\<close>: an output parser that is also a thread.
  \<open>is_running_w\<close> is \<^verbatim>\<open>QThread.isRunning()\<close>.
\<close>

record qt_output_parser_worker = base_output_parser +
  path_w :: string
  is_running_w :: bool

text \<open>
  \<^verbatim>\<open>QtOutputParserWorker.run\<close> (lines 163-167). The result says whether \<^verbatim>\<open>run\<close> has
  returned.
\<close>

definition run ::
  "(string \<Rightarrow> os_error option) \<Rightarrow> file_event list \<Rightarrow> qt_output_parser_worker
     \<Rightarrow> bool \<times> qt_output_parser_worker" where
  "run os_open evs w =
     (case parse_file os_open (path_w w) evs w of
        (Inl (OSError msg), w') \<Rightarrow>
          (True, emit_p (Log Exception ''Parser'' (''Could not parse file ('' @ msg @ '')'')) w')
      | (Inr Returned, w') \<Rightarrow> (True, w')
      | (Inr Running, w') \<Rightarrow> (False, w'))"

text \<open>\<^verbatim>\<open>ParserManager\<close>; \<open>log_pm\<close> records its log records and signals.\<close>

record parser_manager =
  sender_pm :: sender
  worker :: "qt_output_parser_worker option"
  path :: "string option"
  terminated_by_user :: bool
  log_pm :: "event list"

text \<open>\<^verbatim>\<open>ParserManager.__init__\<close>\<close>

definition init_manager :: "sender \<Rightarrow> parser_manager" where
  "init_manager sndr =
     \<lparr>sender_pm = sndr, worker = None, path = None, terminated_by_user = False, log_pm = []\<rparr>"

definition log_m :: "event \<Rightarrow> parser_manager \<Rightarrow> parser_manager" where
  "log_m e m = m\<lparr>log_pm := log_pm m @ [e]\<rparr>"

text \<open>\<^verbatim>\<open>is_running\<close> (lines 195-201)\<close>

definition is_running :: "parser_manager \<Rightarrow> bool" where
  "is_running m = (case worker m of None \<Rightarrow> False | Some w \<Rightarrow> is_running_w w)"

text \<open>\<^verbatim>\<open>terminate\<close> (lines 203-210)\<close>

definition terminate :: "parser_manager \<Rightarrow> parser_manager" where
  "terminate m =
     (if is_running m
      then m\<lparr>terminated_by_user := True, worker := map_option mark_terminated (worker m)\<rparr>
      else m)"

text \<open>\<^verbatim>\<open>_on_parser_terminated\<close> (lines 230-234)\<close>

definition on_parser_terminated :: "parser_manager \<Rightarrow> parser_manager" where
  "on_parser_terminated m =
     (if terminated_by_user m
      then log_m (Log Info ''Parser'' ''Parser was terminated by the user'') m
      else log_m (Log Warning ''Parser'' ''Parser terminated unexpectedly'') m)"

datatype pm_exception = RuntimeError string | FileNotFoundError string

text \<open>
  \<^verbatim>\<open>ParserManager.parse_file\<close> (lines 249-278). \<open>PARSERS\<close> is the list of the
  registered parsers and \<open>resolve\<close> is \<^verbatim>\<open>str(Path(path).resolve())\<close>: the resolved
  path, or the text of the FileNotFoundError it raises. \<^verbatim>\<open>worker.start()\<close> sets the
  thread running and emits \<^verbatim>\<open>started\<close>. The worker is given the sender of the
  manager, one object in the program: from then on the state of that sender is the one
  the worker carries, and \<open>sender_pm\<close> is its state when the worker was made.
\<close>

definition manager_parse_file ::
  "parser list \<Rightarrow> (string \<Rightarrow> string + string) \<Rightarrow> string \<Rightarrow> parser_manager
     \<Rightarrow> pm_exception + parser_manager" where
  "manager_parse_file PARSERS resolve pth m =
     (if is_running m then Inl (RuntimeError ''The worker is already running'')
      else case resolve pth of
        Inl e \<Rightarrow>
          Inr (log_m (Log Exception ''Parser''
                        (''Parser start failed: could not find data file ('' @ e @ '')'')) m)
      | Inr resolved \<Rightarrow>
          (let m1 = m\<lparr>path := Some resolved\<rparr>;
               m2 = log_m (Log Info ''Parser'' (''Starting parser: '' @ resolved)) m1;
               w = base_output_parser.extend (init_parser PARSERS (sender_pm m2))
                     (qt_output_parser_worker.fields resolved False);
               m3 = m2\<lparr>worker := Some (w\<lparr>is_running_w := True\<rparr>)\<rparr>
           in Inr (log_m Parser_started m3)))"

text \<open>
  The worker thread executes \<^verbatim>\<open>run\<close>. When \<^verbatim>\<open>run\<close> returns the thread is no longer
  running and \<^verbatim>\<open>finished\<close> is emitted, which calls the slots connected to it in the
  order of connection: \<^verbatim>\<open>_on_parser_terminated\<close>, then the signal
  \<^verbatim>\<open>parser_terminated\<close>.
\<close>

definition worker_thread ::
  "(string \<Rightarrow> os_error option) \<Rightarrow> file_event list \<Rightarrow> parser_manager \<Rightarrow> parser_manager" where
  "worker_thread os_open evs m =
     (case worker m of
        None \<Rightarrow> m
      | Some w \<Rightarrow>
          if \<not> is_running_w w then m
          else (case run os_open evs w of
                  (True, w') \<Rightarrow>
                    log_m Parser_terminated
                      (on_parser_terminated (m\<lparr>worker := Some (w'\<lparr>is_running_w := False\<rparr>)\<rparr>))
                | (False, w') \<Rightarrow> m\<lparr>worker := Some w'\<rparr>))"

subsection \<open>Sequences of calls on the manager\<close>

text \<open>
  The calls the control thread makes on the manager, and the runs of the worker thread
  between them. An exception of \<^verbatim>\<open>parse_file\<close> goes to the caller and leaves the
  manager as it was.
\<close>

datatype manager_call = Parse_file string | Terminate | Worker_runs "file_event list"

fun manager_calls ::
  "parser list \<Rightarrow> (string \<Rightarrow> string + string) \<Rightarrow> (string \<Rightarrow> os_error option)
     \<Rightarrow> manager_call list \<Rightarrow> parser_manager \<Rightarrow> parser_manager" where
  "manager_calls PARSERS resolve os_open [] m = m"
| "manager_calls PARSERS resolve os_open (Parse_file pth # cs) m =
     manager_calls PARSERS resolve os_open cs
       (case manager_parse_file PARSERS resolve pth m of Inl e \<Rightarrow> m | Inr m' \<Rightarrow> m')"
| "manager_calls PARSERS resolve os_open (Terminate # cs) m =
     manager_calls PARSERS resolve os_open cs (terminate m)"
| "manager_calls PARSERS resolve os_open (Worker_runs evs # cs) m =
     manager_calls PARSERS resolve os_open cs (worker_thread os_open evs m)"

subsection \<open>A parser and a file system\<close>

text \<open>
  The examples below use one parser in the manner of \<^verbatim>\<open>GPSParser\<close>: it claims the
  lines that start with \<^verbatim>\<open>$GPGGA\<close>, fails on a claimed line without fields and
  otherwise builds a dictionary at address 20. The file \<^verbatim>\<open>missing.log\<close> does not
  exist and \<^verbatim>\<open>locked.log\<close> cannot be opened.
\<close>

definition example_parser :: parser where
  "example_parser =
     \<lparr>class_name = ''GPSParser'',
      url_parser = ''/gps/'',
      can_parse = (\<lambda>line. if take 6 line = ''$GPGGA'' then Some ''GPGGA'' else None),
      parse = (\<lambda>ol st.
        if length (raw_text ol) < 8
        then (Inl \<lparr>message = ''Malformed GPGGA sentence'', parser_name = None\<rparr>, st)
        else (Inr (Some 20), st(20 := [(''sentence'', VStr (raw_text ol))])))\<rparr>"

definition example_resolve :: "string \<Rightarrow> string + string" where
  "example_resolve pth =
     (if pth = ''missing.log''
      then Inl ''[Errno 2] No such file or directory: missing.log''
      else Inr (''/data/'' @ pth))"

definition example_os_open :: "string \<Rightarrow> os_error option" where
  "example_os_open filename =
     (if filename = ''/data/locked.log''
      then Some (OSError ''[Errno 13] Permission denied: /data/locked.log'')
      else None)"

section \<open>Properties of the request queue\<close>

text \<open>The definitions that evaluate a call on a given sender.\<close>

lemma add_request_alt:
  "add_request ts m u d f append_timestamp cb s =
     (let s1 = (if append_timestamp
                then s\<lparr>heap := setitem d ''timestamp'' ts (heap s)\<rparr>
                else s);
          request_data = \<lparr>id_rd = id_snd s1, module = m, url = u, data = d, files = f,
                          callback = cb\<rparr>;
          s2 = s1\<lparr>id_snd := id_snd s1 + 1,
                  queue := queue s1 @ [request_data],
                  not_empty := notify (not_empty s1)\<rparr>
      in emit (Request_added request_data) s2)"
  by (simp add: add_request_def stamp_def enqueue_def on_request_added_def Let_def)

lemmas sender_defs = example_sender_def example_request_def example_store_def init_sender_def
  add_request_alt set_paused_def set_skip_current_def emit_def notify_def setitem_def
  pause_check_def wait_unpaused_def wait_not_empty_def on_api_error_def str_exc_def Let_def

lemma state_of_simps [simp]:
  "state_of (Blocked s) = s" "state_of (Done x env s) = s" "state_of (Uncaught y env s) = s"
  by (simp_all add: state_of_def)

lemma rest_of_simps [simp]:
  "rest_of (Blocked s) = []" "rest_of (Done x env s) = env" "rest_of (Uncaught y env s) = env"
  by (simp_all add: rest_of_def)

lemma consumed_eq: "env = c @ rest_of r \<Longrightarrow> consumed env r = c"
  by (simp add: consumed_def)

lemma created_by_append:
  "created_by n (c1 @ c2) =
     created_by n c1 @ created_by (n + int (length (created_by n c1))) c2"
proof (induction c1 arbitrary: n)
  case Nil
  then show ?case by simp
next
  case (Cons e c1)
  then show ?case by (cases e) (simp_all add: add.assoc)
qed

lemma created_by_ids:
  "map id_rd (created_by n c) = [n..n + int (length (created_by n c)) - 1]"
proof (induction c arbitrary: n)
  case Nil
  then show ?case by simp
next
  case (Cons e c)
  show ?case
  proof (cases e)
    case (Add_request ts m u d f a cb)
    have "[n..n + (1 + int (length (created_by (n + 1) c))) - 1] =
            n # [n + 1..n + 1 + int (length (created_by (n + 1) c)) - 1]"
      by (subst upto_rec1) (simp_all add: algebra_simps)
    with Cons [of "n + 1"] Add_request show ?thesis by simp
  qed (simp_all add: Cons)
qed

lemma accounts_refl [simp]: "accounts [] [] s s"
  by (simp add: accounts_def)

lemma accounts_trans:
  "accounts p1 c1 s s1 \<Longrightarrow> accounts p2 c2 s1 s2 \<Longrightarrow> accounts (p1 @ p2) (c1 @ c2) s s2"
  by (auto simp: accounts_def created_by_append)

lemma accounts_trans0:
  "accounts [] c1 s s1 \<Longrightarrow> accounts p c2 s1 s2 \<Longrightarrow> accounts p (c1 @ c2) s s2"
  using accounts_trans [of "[]" c1 s s1 p c2 s2] by simp

lemma accounts_frame [simp]:
  "accounts p c s (s'\<lparr>unpaused := ws\<rparr>) = accounts p c s s'"
  "accounts p c (s\<lparr>unpaused := ws\<rparr>) s' = accounts p c s s'"
  "accounts p c s (s'\<lparr>not_empty := ws\<rparr>) = accounts p c s s'"
  "accounts p c (s\<lparr>not_empty := ws\<rparr>) s' = accounts p c s s'"
  "accounts p c s (s'\<lparr>skip_current := b\<rparr>) = accounts p c s s'"
  "accounts p c s (emit e s') = accounts p c s s'"
  "accounts p c (emit e s) s' = accounts p c s s'"
  by (simp_all add: accounts_def emit_def)

lemma reads_refl [simp]: "reads [] s s"
  by (simp add: reads_def)

lemma reads_trans: "reads c1 s s1 \<Longrightarrow> reads c2 s1 s2 \<Longrightarrow> reads (c1 @ c2) s s2"
  using accounts_trans0 [of c1 s s1 "[]" c2 s2] by (auto simp: reads_def)

lemma reads_accounts: "reads c1 s s1 \<Longrightarrow> accounts p c2 s1 s2 \<Longrightarrow> accounts p (c1 @ c2) s s2"
  by (auto simp: reads_def intro: accounts_trans0)

lemma reads_frame [simp]:
  "reads c s (s'\<lparr>unpaused := ws\<rparr>) = reads c s s'"
  "reads c (s\<lparr>unpaused := ws\<rparr>) s' = reads c s s'"
  "reads c s (s'\<lparr>not_empty := ws\<rparr>) = reads c s s'"
  "reads c (s\<lparr>not_empty := ws\<rparr>) s' = reads c s s'"
  "reads c s (emit e s') = reads c s s'"
  "reads c (emit e s) s' = reads c s s'"
  by (simp_all add: reads_def) (simp_all add: emit_def)

lemma reads_env_step: "reads [e] s (env_step e s)"
  by (cases e)
     (simp_all add: reads_def accounts_def add_request_alt set_paused_def set_skip_current_def
        emit_def Let_def)

lemma accounts_env_step: "accounts [] [e] s (env_step e s)"
  using reads_env_step [of e s] by (simp add: reads_def)

lemma reads_run_others:
  "\<exists>c. env = c @ rest_of (run_others woken env s) \<and>
       reads c s (state_of (run_others woken env s))"
proof (induction woken env s rule: run_others.induct)
  case (1 woken s)
  then show ?case by simp
next
  case (2 woken e env s)
  show ?case
  proof (cases "woken s")
    case True
    then show ?thesis by simp
  next
    case False
    from 2 [OF False] obtain c where c: "env = c @ rest_of (run_others woken env (env_step e s))"
      "reads c (env_step e s) (state_of (run_others woken env (env_step e s)))"
      by blast
    from reads_trans [OF reads_env_step c(2)] c(1) False show ?thesis
      by (intro exI [of _ "e # c"]) simp
  qed
qed

lemma reads_api_create_step:
  assumes "\<exists>c. env = c @ rest_of (api_create u d f env (env_step e s)) \<and>
             reads c (env_step e s) (state_of (api_create u d f env (env_step e s)))"
    and "api_create u d f (e # env) s = api_create u d f env (env_step e s)"
  shows "\<exists>c. e # env = c @ rest_of (api_create u d f (e # env) s) \<and>
             reads c s (state_of (api_create u d f (e # env) s))"
proof -
  from assms(1) obtain c where c: "env = c @ rest_of (api_create u d f env (env_step e s))"
    "reads c (env_step e s) (state_of (api_create u d f env (env_step e s)))"
    by blast
  from reads_trans [OF reads_env_step c(2)] c(1) assms(2) show ?thesis
    by (intro exI [of _ "e # c"]) simp
qed

lemma reads_api_create:
  "\<exists>c. env = c @ rest_of (api_create u d f env s) \<and>
       reads c s (state_of (api_create u d f env s))"
proof (induction u d f env s rule: api_create.induct)
  case (1 u d f s)
  then show ?case by simp
next
  case (2 u d f r env s)
  have "reads [Api_returns r] s s"
    by (simp add: reads_def accounts_def)
  then show ?case
    by (intro exI [of _ "[Api_returns r]"]) simp
qed (rule reads_api_create_step, assumption, simp)+

lemma reads_pause_check:
  "\<exists>c. env = c @ rest_of (pause_check tid env s) \<and>
       reads c s (state_of (pause_check tid env s))"
  using reads_run_others [of env "\<lambda>s'. tid \<notin> set (unpaused s')"
          "s\<lparr>unpaused := unpaused s @ [tid]\<rparr>"]
  by (simp add: pause_check_def wait_unpaused_def)

lemma reads_wait_not_empty:
  "\<exists>c. env = c @ rest_of (wait_not_empty tid env s) \<and>
       reads c s (state_of (wait_not_empty tid env s))"
  using reads_run_others [of env "\<lambda>s'. tid \<notin> set (not_empty s')"
          "s\<lparr>not_empty := not_empty s @ [tid]\<rparr>"]
  by (simp add: wait_not_empty_def)

lemma reads_on_api_error: "reads [] s (on_api_error rd e s)"
  by (simp add: on_api_error_def reads_def accounts_def set_paused_def emit_def Let_def)

lemma never_Uncaught [simp]:
  "run_others woken env s \<noteq> Uncaught x env' s'"
  "api_create u d f env s \<noteq> Uncaught x env' s'"
  "pause_check tid env s \<noteq> Uncaught x env' s'"
  "wait_not_empty tid env s \<noteq> Uncaught x env' s'"
proof -
  show 1: "run_others woken env s \<noteq> Uncaught x env' s'" for woken env s
    by (induction woken env s rule: run_others.induct) auto
  show "api_create u d f env s \<noteq> Uncaught x env' s'"
    by (induction u d f env s rule: api_create.induct) auto
  show "pause_check tid env s \<noteq> Uncaught x env' s'"
    by (simp add: pause_check_def wait_unpaused_def 1)
  show "wait_not_empty tid env s \<noteq> Uncaught x env' s'"
    by (simp add: wait_not_empty_def 1)
qed

declare retry_loop.simps [simp del] pop_request.simps [simp del]

lemma retry_loop_reads:
  "\<exists>c. env = c @ rest_of (retry_loop tid rd env s) \<and>
       accounts [] c s (state_of (retry_loop tid rd env s)) \<and>
       (\<forall>env' s'. retry_loop tid rd env s = Done Skipped env' s' \<longrightarrow>
          skip_current s \<or> Set_skip_current \<in> set c)"
proof (induction tid rd env s rule: retry_loop.induct)
  case (1 tid rd env s)
  note unf = retry_loop.simps [of tid rd env s]
  from reads_pause_check [of env tid s] obtain c1
    where c1: "env = c1 @ rest_of (pause_check tid env s)"
      "reads c1 s (state_of (pause_check tid env s))"
    by blast
  show ?case
  proof (cases "pause_check tid env s")
    case (Blocked s')
    then have res: "retry_loop tid rd env s = Blocked s'"
      by (simp add: unf)
    from c1 Blocked show ?thesis
      unfolding res by (intro exI [of _ c1]) (simp add: reads_def)
  next
    case (Uncaught x env' s')
    then show ?thesis by simp
  next
    case (Done x env1 s1)
    with c1 have e1: "env = c1 @ env1" "reads c1 s s1" by simp_all
    show ?thesis
    proof (cases "skip_current s1")
      case True
      with Done have res: "retry_loop tid rd env s = Done Skipped env1 (s1\<lparr>skip_current := False\<rparr>)"
        by (simp add: unf)
      from e1 True show ?thesis
        unfolding res by (intro exI [of _ c1]) (auto simp: reads_def)
    next
      case False
      let ?s1 = "emit (Request_processing rd) s1"
      let ?a = "api_create (url rd) (data rd) (files rd) env1 ?s1"
      from reads_api_create [of env1 "url rd" "data rd" "files rd" ?s1] obtain c2
        where c2: "env1 = c2 @ rest_of ?a" "reads c2 s1 (state_of ?a)"
        by auto
      have r12: "reads (c1 @ c2) s (state_of ?a)"
        by (rule reads_trans [OF e1(2) c2(2)])
      show ?thesis
      proof (cases ?a)
        case (Blocked s')
        with Done False have res: "retry_loop tid rd env s = Blocked s'"
          by (simp add: unf)
        from Blocked e1 c2 r12 show ?thesis
          unfolding res by (intro exI [of _ "c1 @ c2"]) (simp add: reads_def)
      next
        case (Uncaught x env' s')
        then show ?thesis by simp
      next
        case D2: (Done r env2 s2)
        with c2 r12 have e2: "env1 = c2 @ env2" "reads (c1 @ c2) s s2" by simp_all
        show ?thesis
        proof (cases r)
          case Created
          with Done False D2 have res: "retry_loop tid rd env s = Done Submitted env2 s2"
            by (simp add: unf)
          from e1 e2 show ?thesis
            unfolding res by (intro exI [of _ "c1 @ c2"]) (simp add: reads_def)
        next
          case (Raised_other y)
          with Done False D2 have res: "retry_loop tid rd env s = Uncaught y env2 s2"
            by (simp add: unf)
          from e1 e2 show ?thesis
            unfolding res by (intro exI [of _ "c1 @ c2"]) (simp add: reads_def)
        next
          case (Raised e)
          let ?s3 = "on_api_error rd e s2"
          let ?r = "retry_loop tid rd env2 ?s3"
          have eq: "retry_loop tid rd env s = ?r"
            using Done False D2 Raised by (simp add: unf)
          have r3: "reads (c1 @ c2) s ?s3"
            using reads_trans [OF e2(2) reads_on_api_error [of s2 rd e]] by simp
          from "1.IH" [OF Done False D2 Raised] obtain c3
            where c3: "env2 = c3 @ rest_of ?r" "accounts [] c3 ?s3 (state_of ?r)"
              "\<forall>env' s'. ?r = Done Skipped env' s' \<longrightarrow>
                 skip_current ?s3 \<or> Set_skip_current \<in> set c3"
            by blast
          have "accounts [] ((c1 @ c2) @ c3) s (state_of ?r)"
            by (rule reads_accounts [OF r3 c3(2)])
          moreover have "env = ((c1 @ c2) @ c3) @ rest_of ?r"
            using e1(1) e2(1) c3(1) by simp
          moreover have "\<forall>env' s'. ?r = Done Skipped env' s' \<longrightarrow>
                 skip_current s \<or> Set_skip_current \<in> set ((c1 @ c2) @ c3)"
            using c3(3) r3 by (auto simp: reads_def)
          ultimately show ?thesis
            unfolding eq by blast
        qed
      qed
    qed
  qed
qed


lemma pop_request_Cons:
  "queue s = rd # rest \<Longrightarrow> pop_request tid env s = Done rd env (s\<lparr>queue := rest\<rparr>)"
  by (simp add: pop_request.simps [of tid env s])

lemma pop_request_never_Uncaught [simp]: "pop_request tid env s \<noteq> Uncaught x env' s'"
proof (induction tid env s rule: pop_request.induct)
  case (1 tid env s)
  then show ?case
    by (cases "queue s"; cases "wait_not_empty tid env s")
       (auto simp: pop_request.simps [of tid env s])
qed

lemma accounts_pop_request:
  "\<exists>c. env = c @ rest_of (pop_request tid env s) \<and>
       accounts (popped_by tid env s) c s (state_of (pop_request tid env s))"
proof (induction tid env s rule: pop_request.induct)
  case (1 tid env s)
  note unf = pop_request.simps [of tid env s]
  show ?case
  proof (cases "queue s")
    case (Cons rd rest)
    then have res: "pop_request tid env s = Done rd env (s\<lparr>queue := rest\<rparr>)"
      by (rule pop_request_Cons)
    from Cons show ?thesis
      unfolding popped_by_def res by (intro exI [of _ "[]"]) (simp add: accounts_def)
  next
    case Nil
    from reads_wait_not_empty [of env tid s] obtain c1
      where c1: "env = c1 @ rest_of (wait_not_empty tid env s)"
        "reads c1 s (state_of (wait_not_empty tid env s))"
      by blast
    show ?thesis
    proof (cases "wait_not_empty tid env s")
      case (Blocked s')
      with Nil have res: "pop_request tid env s = Blocked s'"
        by (simp add: unf)
      from c1 Blocked show ?thesis
        unfolding popped_by_def res by (intro exI [of _ c1]) (simp add: reads_def)
    next
      case (Uncaught x env' s')
      then show ?thesis by simp
    next
      case (Done x env' s')
      with Nil have res: "pop_request tid env s = pop_request tid env' s'"
        by (simp add: unf)
      from "1.IH" [OF Nil Done] obtain c2
        where c2: "env' = c2 @ rest_of (pop_request tid env' s')"
          "accounts (popped_by tid env' s') c2 s' (state_of (pop_request tid env' s'))"
        by blast
      from c1 Done have "env = c1 @ env'" "reads c1 s s'" by simp_all
      with c2 reads_accounts [of c1 s s' "popped_by tid env' s'" c2] show ?thesis
        unfolding popped_by_def res by (intro exI [of _ "c1 @ c2"]) simp
    qed
  qed
qed

lemma accounts_process_request:
  "\<exists>c. env = c @ rest_of (process_request tid env s) \<and>
       accounts (popped_by tid env s) c s (state_of (process_request tid env s))"
proof -
  from accounts_pop_request [of env tid s] obtain c1
    where c1: "env = c1 @ rest_of (pop_request tid env s)"
      "accounts (popped_by tid env s) c1 s (state_of (pop_request tid env s))"
    by blast
  show ?thesis
  proof (cases "pop_request tid env s")
    case (Blocked s')
    with c1 show ?thesis
      by (intro exI [of _ c1]) (simp add: process_request_def)
  next
    case (Uncaught x env' s')
    then show ?thesis by simp
  next
    case (Done rd env1 s1)
    let ?l = "retry_loop tid rd env1 s1"
    from retry_loop_reads [of env1 tid rd s1] obtain c2
      where c2: "env1 = c2 @ rest_of ?l" "accounts [] c2 s1 (state_of ?l)"
      by blast
    from c1 Done have "env = c1 @ env1" "accounts (popped_by tid env s) c1 s s1"
      by simp_all
    with c2 accounts_trans [of "popped_by tid env s" c1 s s1 "[]" c2 "state_of ?l"]
    have a: "env = (c1 @ c2) @ rest_of ?l"
      "accounts (popped_by tid env s) (c1 @ c2) s (state_of ?l)"
      by simp_all
    show ?thesis
      using a Done
      by (cases ?l)
         (auto simp: process_request_def Let_def split: option.splits
               intro!: exI [of _ "c1 @ c2"])
  qed
qed

lemma created_by_one_ids:
  "map id_rd xs = [1..int (length xs)] \<Longrightarrow>
   map id_rd (xs @ created_by (1 + int (length xs)) c) =
     [1..int (length (xs @ created_by (1 + int (length xs)) c))]"
proof -
  assume xs: "map id_rd xs = [1..int (length xs)]"
  let ?n = "int (length xs)"
  let ?k = "int (length (created_by (1 + ?n) c))"
  have "[1..?n + ?k] = [1..?n] @ [?n + 1..?n + ?k]"
  proof (cases "?n = 0")
    case True
    then show ?thesis by simp
  next
    case False
    then have "1 \<le> ?n" by (cases xs) simp_all
    then show ?thesis by (intro upto_split2) simp_all
  qed
  with xs created_by_ids [of "1 + ?n" c] show ?thesis
    by (simp add: algebra_simps)
qed

lemma fifo_inv_init: "fifo_inv (init_system st)"
  by (simp add: fifo_inv_def init_system_def init_sender_def)

lemma fifo_inv_accounts:
  assumes "fifo_inv sys"
    and "accounts p c (the_sender sys) s'"
  shows "fifo_inv (sys\<lparr>the_sender := s',
            expected := expected sys @ created_by (1 + int (length (expected sys))) c,
            popped := popped sys @ p\<rparr>)"
  using assms created_by_one_ids [of "expected sys" c]
  by (auto simp: fifo_inv_def accounts_def)

lemma fifo_inv_call_step: "fifo_inv sys \<Longrightarrow> fifo_inv (call_step c sys)"
proof (cases c)
  case (Add_stamp tid ts m u d f a cb)
  assume "fifo_inv sys"
  then show ?thesis
    using Add_stamp
    by (auto simp: fifo_inv_def stamp_def split: producer.splits)
next
  case (Add_locked tid)
  assume "fifo_inv sys"
  then show ?thesis
    using Add_locked
    by (auto simp: fifo_inv_def enqueue_def Let_def upto_rec2 split: producer.splits)
next
  case (Add_hook tid)
  assume "fifo_inv sys"
  then show ?thesis
    using Add_hook
    by (auto simp: fifo_inv_def on_request_added_def emit_def
             split: producer.splits)
next
  case (By_other e)
  assume i: "fifo_inv sys"
  from fifo_inv_accounts [OF i accounts_env_step [of e "the_sender sys"]]
  show ?thesis
    using By_other by simp
next
  case (Process_request tid env)
  assume i: "fifo_inv sys"
  let ?r = "process_request tid env (the_sender sys)"
  from accounts_process_request [of env tid "the_sender sys"] obtain c
    where c: "env = c @ rest_of ?r"
      "accounts (popped_by tid env (the_sender sys)) c (the_sender sys) (state_of ?r)"
    by blast
  from consumed_eq [OF c(1)] fifo_inv_accounts [OF i c(2)]
  show ?thesis
    using Process_request by (simp add: Let_def)
qed

lemma fifo_inv_run_calls: "fifo_inv sys \<Longrightarrow> fifo_inv (run_calls cs sys)"
  by (induction cs arbitrary: sys) (simp_all add: fifo_inv_call_step)


lemma process_request_Created:
  assumes "queue s = rd # rest" "\<not> paused s" "\<not> skip_current s"
  shows "process_request tid (Api_returns Created # env) s =
           Done () env
             (s\<lparr>queue := rest,
                events := events s @
                  [Request_processing rd, Api_create (url rd) (data rd) (files rd) Created,
                   Request_processed rd] @
                  (case callback rd of None \<Rightarrow> [] | Some cb \<Rightarrow> [Callback_called cb])\<rparr>)"
  using assms pop_request_Cons [OF assms(1), of tid "Api_returns Created # env"]
  by (simp add: process_request_def retry_loop.simps pause_check_def emit_def Let_def
           split: option.splits)

text \<open>
  C1. Start from a fresh sender and let any sequence of steps run on it: the three parts
  of calls of \<^verbatim>\<open>add_request\<close> by any number of producer threads, interleaved in any
  way, whole calls of \<^verbatim>\<open>add_request\<close>, \<^verbatim>\<open>set_paused\<close> and
  \<^verbatim>\<open>set_skip_current\<close>, and calls of \<^verbatim>\<open>process_request\<close>, each in any
  environment. Then the items popped so far, followed by the items still in the queue,
  are exactly the requests that the calls of \<^verbatim>\<open>add_request\<close> were to create, one for
  each call, in the order in which the calls took the lock; they have the ids
  \<open>1, 2, ..., n\<close> (strictly increasing, consecutive, none used twice), and the next
  id of the sender is \<open>n + 1\<close>. A call of \<^verbatim>\<open>add_request\<close> appends one request, with
  the next id, to the queue. A call of \<^verbatim>\<open>process_request\<close> that finds the queue not
  empty pops its head at once; a call that returns has removed exactly one item, the
  head of the queue as the calls of \<^verbatim>\<open>add_request\<close> made meanwhile extended it; and
  with the queue neither paused nor told to skip, a call whose submission succeeds
  returns and leaves the rest of the queue.
\<close>

theorem ids_consecutive_and_fifo:
  "(let sys = run_calls cs (init_system st) in
      popped sys @ queue (the_sender sys) = expected sys \<and>
      map id_rd (expected sys) = [1..int (length (expected sys))] \<and>
      sorted_wrt (<) (map id_rd (expected sys)) \<and>
      id_snd (the_sender sys) = 1 + int (length (expected sys))) \<and>
   queue (add_request ts m u d f a cb s) =
     queue s @ [\<lparr>id_rd = id_snd s, module = m, url = u, data = d, files = f, callback = cb\<rparr>] \<and>
   id_snd (add_request ts m u d f a cb s) = id_snd s + 1 \<and>
   (queue s = rd # rest \<longrightarrow> pop_request tid env s = Done rd env (s\<lparr>queue := rest\<rparr>)) \<and>
   (\<forall>env' s'. process_request tid env s = Done () env' s' \<longrightarrow>
      (\<exists>x. popped_by tid env s = [x] \<and>
           x # queue s' =
             queue s @ created_by (id_snd s) (consumed env (process_request tid env s)))) \<and>
   (queue s = rd # rest \<and> \<not> paused s \<and> \<not> skip_current s \<longrightarrow>
      (\<exists>s'. process_request tid (Api_returns Created # env) s = Done () env s' \<and>
            queue s' = rest))"
proof -
  let ?sys = "run_calls cs (init_system st)"
  have i: "fifo_inv ?sys"
    by (rule fifo_inv_run_calls [OF fifo_inv_init])
  have "sorted_wrt (<) [1..int (length (expected ?sys))]"
    by (simp add: strict_sorted_iff)
  with i have 1: "popped ?sys @ queue (the_sender ?sys) = expected ?sys \<and>
      map id_rd (expected ?sys) = [1..int (length (expected ?sys))] \<and>
      sorted_wrt (<) (map id_rd (expected ?sys)) \<and>
      id_snd (the_sender ?sys) = 1 + int (length (expected ?sys))"
    by (simp add: fifo_inv_def)
  have 2: "queue (add_request ts m u d f a cb s) =
      queue s @ [\<lparr>id_rd = id_snd s, module = m, url = u, data = d, files = f, callback = cb\<rparr>]"
    "id_snd (add_request ts m u d f a cb s) = id_snd s + 1"
    by (simp_all add: add_request_alt emit_def Let_def)
  have 3: "queue s = rd # rest \<longrightarrow> pop_request tid env s = Done rd env (s\<lparr>queue := rest\<rparr>)"
    by (simp add: pop_request_Cons)
  have 4: "\<forall>env' s'. process_request tid env s = Done () env' s' \<longrightarrow>
      (\<exists>x. popped_by tid env s = [x] \<and>
           x # queue s' =
             queue s @ created_by (id_snd s) (consumed env (process_request tid env s)))"
  proof (intro allI impI)
    fix env' s'
    assume ret: "process_request tid env s = Done () env' s'"
    from accounts_process_request [of env tid s] obtain c
      where c: "env = c @ rest_of (process_request tid env s)"
        "accounts (popped_by tid env s) c s (state_of (process_request tid env s))"
      by blast
    from ret obtain x where x: "popped_by tid env s = [x]"
      by (auto simp: process_request_def popped_by_def split: run.splits)
    from c x ret consumed_eq [OF c(1)]
    show "\<exists>x. popped_by tid env s = [x] \<and>
           x # queue s' =
             queue s @ created_by (id_snd s) (consumed env (process_request tid env s))"
      by (simp add: accounts_def)
  qed
  have 5: "queue s = rd # rest \<and> \<not> paused s \<and> \<not> skip_current s \<longrightarrow>
      (\<exists>s'. process_request tid (Api_returns Created # env) s = Done () env s' \<and>
            queue s' = rest)"
    by (auto simp: process_request_Created)
  from 1 2 3 4 5 show ?thesis
    by (simp add: Let_def)
qed

theorem ids_consecutive_and_fifo_witness:
  "expected (run_calls two_producers (init_system example_store)) =
     [\<lparr>id_rd = 1, module = ''GPS'', url = ''/gps/'', data = 7, files = None,
       callback = Some 3\<rparr>,
      \<lparr>id_rd = 2, module = ''Telemetry'', url = ''/telemetry/'', data = 8, files = None,
       callback = None\<rparr>] \<and>
   queue (the_sender (run_calls two_producers (init_system example_store))) =
     expected (run_calls two_producers (init_system example_store)) \<and>
   map id_rd (added (events (the_sender (run_calls two_producers (init_system example_store)))))
     = [2, 1] \<and>
   map id_rd (popped (run_calls
       (two_producers @ [Process_request 0 [Api_returns Created],
                         Process_request 0 [Api_returns Created]])
       (init_system example_store))) = [1, 2] \<and>
   queue (the_sender (run_calls
       (two_producers @ [Process_request 0 [Api_returns Created],
                         Process_request 0 [Api_returns Created]])
       (init_system example_store))) = [] \<and>
   pop_request 0 [] example_sender = Done example_request [] (example_sender\<lparr>queue := []\<rparr>) \<and>
   (\<exists>s'. process_request 0 [Api_returns Created] example_sender = Done () [] s' \<and>
         queue s' = [])"
proof -
  let ?sys = "run_calls two_producers (init_system example_store)"
  let ?cs2 = "two_producers @ [Process_request 0 [Api_returns Created],
                               Process_request 0 [Api_returns Created]]"
  let ?sys2 = "run_calls ?cs2 (init_system example_store)"
  have e: "expected ?sys =
     [\<lparr>id_rd = 1, module = ''GPS'', url = ''/gps/'', data = 7, files = None,
       callback = Some 3\<rparr>,
      \<lparr>id_rd = 2, module = ''Telemetry'', url = ''/telemetry/'', data = 8, files = None,
       callback = None\<rparr>]"
    and p: "popped ?sys = []"
    and h: "map id_rd (added (events (the_sender ?sys))) = [2, 1]"
    by (simp_all add: two_producers_def init_system_def init_sender_def stamp_def enqueue_def
          on_request_added_def emit_def notify_def added_def Let_def)
  have q2: "queue (the_sender ?sys2) = []"
    by (simp add: two_producers_def init_system_def init_sender_def stamp_def enqueue_def
          on_request_added_def emit_def notify_def Let_def process_request_def
          pop_request.simps retry_loop.simps pause_check_def)
  have q: "queue example_sender = example_request # []"
    "\<not> paused example_sender" "\<not> skip_current example_sender"
    by (simp_all add: sender_defs)
  note T1 = ids_consecutive_and_fifo [where cs = two_producers and st = example_store
      and s = example_sender and rd = example_request and rest = "[]" and tid = 0 and env = "[]"]
  note T2 = ids_consecutive_and_fifo [where cs = ?cs2 and st = example_store]
  from T1 p have 1: "queue (the_sender ?sys) = expected ?sys"
    by (simp add: Let_def)
  from T1 q have 2: "pop_request 0 [] example_sender =
      Done example_request [] (example_sender\<lparr>queue := []\<rparr>)"
    "\<exists>s'. process_request 0 [Api_returns Created] example_sender = Done () [] s' \<and>
         queue s' = []"
    by blast+
  from T2 q2 have "map id_rd (popped ?sys2) = [1..int (length (expected ?sys2))]"
    by (simp add: Let_def)
  moreover have "length (expected ?sys2) = 2"
    by (simp add: two_producers_def init_system_def init_sender_def stamp_def enqueue_def
          on_request_added_def emit_def notify_def Let_def process_request_def
          pop_request.simps retry_loop.simps pause_check_def consumed_def rest_of_def)
  ultimately have 3: "map id_rd (popped ?sys2) = [1, 2]"
    by (simp add: upto.simps)
  from e 1 h 3 q2 2 show ?thesis
    by simp
qed

subsection \<open>The retry loop\<close>

lemma grows_refl [simp]: "grows P s s"
  by (simp add: grows_def)

lemma grows_trans: "grows P s s' \<Longrightarrow> grows P s' s'' \<Longrightarrow> grows P s s''"
  by (auto simp: grows_def)

lemma grows_mono: "grows P s s' \<Longrightarrow> (\<And>e. P e \<Longrightarrow> Q e) \<Longrightarrow> grows Q s s'"
  by (auto simp: grows_def list_all_iff)

lemma grows_emit: "P e \<Longrightarrow> grows P s (emit e s)"
  by (simp add: grows_def emit_def)

lemma grows_frame [simp]:
  "grows P s (s'\<lparr>unpaused := ws\<rparr>) = grows P s s'"
  "grows P (s\<lparr>unpaused := ws\<rparr>) s' = grows P s s'"
  "grows P s (s'\<lparr>not_empty := ws\<rparr>) = grows P s s'"
  "grows P (s\<lparr>not_empty := ws\<rparr>) s' = grows P s s'"
  "grows P s (s'\<lparr>skip_current := b\<rparr>) = grows P s s'"
  by (simp_all add: grows_def)

lemma grows_env_step: "grows by_others s (env_step e s)"
  by (cases e)
     (auto simp: grows_def add_request_alt set_paused_def set_skip_current_def emit_def Let_def)

lemma grows_run_others: "grows by_others s (state_of (run_others woken env s))"
  by (induction woken env s rule: run_others.induct)
     (auto intro: grows_trans [OF grows_env_step] simp del: env_step.simps)

lemma grows_pause_check: "grows by_others s (state_of (pause_check tid env s))"
  using grows_run_others [of "s\<lparr>unpaused := unpaused s @ [tid]\<rparr>"]
  by (simp add: pause_check_def wait_unpaused_def)

lemma api_create_Blocked:
  "api_create u d f env s = Blocked s' \<Longrightarrow> grows by_others s s'"
  by (induction u d f env s rule: api_create.induct)
     (auto intro: grows_trans [OF grows_env_step] simp del: env_step.simps)

lemma api_create_Done:
  "api_create u d f env s = Done r env' s' \<Longrightarrow>
   \<exists>s0. grows by_others s s0 \<and> s' = emit (Api_create u d f r) s0"
proof (induction u d f env s rule: api_create.induct)
  case (2 u d f r0 env0 s)
  then have "grows by_others s s \<and> s' = emit (Api_create u d f r) s" by auto
  then show ?case by blast
qed (auto intro: grows_trans [OF grows_env_step] simp del: env_step.simps)

lemma by_others_failed_attempt: "by_others e \<Longrightarrow> failed_attempt rd e"
  by (cases e) (simp_all add: failed_attempt_def)

lemma grows_on_api_error: "grows (failed_attempt rd) s (on_api_error rd e s)"
  by (simp add: on_api_error_def grows_def set_paused_def emit_def Let_def failed_attempt_def)

lemma retry_loop_events:
  "case retry_loop tid rd env s of
     Blocked s' \<Rightarrow> grows (failed_attempt rd) s s'
   | Done Skipped env' s' \<Rightarrow> grows (failed_attempt rd) s s' \<and> \<not> skip_current s'
   | Done Submitted env' s' \<Rightarrow>
       (\<exists>s0. grows (failed_attempt rd) s s0 \<and>
             s' = emit (Api_create (url rd) (data rd) (files rd) Created) s0)
   | Uncaught x env' s' \<Rightarrow>
       (\<exists>s0. grows (failed_attempt rd) s s0 \<and>
             s' = emit (Api_create (url rd) (data rd) (files rd) (Raised_other x)) s0)"
proof (induction tid rd env s rule: retry_loop.induct)
  case (1 tid rd env s)
  have pc: "grows (failed_attempt rd) s (state_of (pause_check tid env s))"
    by (rule grows_mono [OF grows_pause_check by_others_failed_attempt])
  show ?case
  proof (cases "pause_check tid env s")
    case (Blocked s')
    with pc show ?thesis by (simp add: retry_loop.simps [of tid rd env s])
  next
    case (Uncaught x env' s')
    then show ?thesis by simp
  next
    case (Done x env1 s1)
    with pc have e1: "grows (failed_attempt rd) s s1" by simp
    show ?thesis
    proof (cases "skip_current s1")
      case True
      with Done e1 show ?thesis by (simp add: retry_loop.simps [of tid rd env s])
    next
      case False
      let ?s1 = "emit (Request_processing rd) s1"
      let ?a = "api_create (url rd) (data rd) (files rd) env1 ?s1"
      have e1': "grows (failed_attempt rd) s ?s1"
        by (rule grows_trans [OF e1 grows_emit]) (simp add: failed_attempt_def)
      show ?thesis
      proof (cases ?a)
        case (Blocked s')
        from api_create_Blocked [OF this]
        have "grows (failed_attempt rd) ?s1 s'"
          by (rule grows_mono) (rule by_others_failed_attempt)
        with e1' Done False Blocked show ?thesis
          by (auto intro: grows_trans simp: retry_loop.simps [of tid rd env s])
      next
        case (Uncaught x env' s')
        then show ?thesis by simp
      next
        case D2: (Done r env2 s2)
        from api_create_Done [OF this] obtain s0
          where s0: "grows by_others ?s1 s0"
            and s2: "s2 = emit (Api_create (url rd) (data rd) (files rd) r) s0"
          by blast
        have e0: "grows (failed_attempt rd) s s0"
          by (rule grows_trans [OF e1' grows_mono [OF s0 by_others_failed_attempt]])
        show ?thesis
        proof (cases r)
          case Created
          with Done False D2 e0 s2 show ?thesis
            by (auto simp: retry_loop.simps [of tid rd env s])
        next
          case (Raised_other y)
          with Done False D2 e0 s2 show ?thesis
            by (auto simp: retry_loop.simps [of tid rd env s])
        next
          case (Raised e)
          have "grows (failed_attempt rd) s0 s2"
            unfolding s2 Raised by (rule grows_emit) (simp add: failed_attempt_def)
          with e0 have e2: "grows (failed_attempt rd) s (on_api_error rd e s2)"
            by (blast intro: grows_trans grows_on_api_error)
          have eq: "retry_loop tid rd env s = retry_loop tid rd env2 (on_api_error rd e s2)"
            using Done False D2 Raised by (simp add: retry_loop.simps [of tid rd env s])
          from "1.IH" [OF Done False D2 Raised] e2
          show ?thesis unfolding eq
            by (auto split: run.splits loop_exit.splits intro: grows_trans)
        qed
      qed
    qed
  qed
qed







lemma grows_retry_loop: "grows (concerns rd) s (state_of (retry_loop tid rd env s))"
proof -
  have m: "grows (failed_attempt rd) a b \<Longrightarrow> grows (concerns rd) a b" for a b
    by (erule grows_mono) (simp add: failed_attempt_def)
  from retry_loop_events [where tid = tid and rd = rd and env = env and s = s] show ?thesis
    by (auto split: run.splits loop_exit.splits dest!: m
             intro!: grows_trans [OF _ grows_emit [where P = "concerns rd"]])
qed

text \<open>
  C2. In the retry loop for the popped item \<open>rd\<close>, let the thread be past the pause
  check and the skip check and let \<^verbatim>\<open>api.create\<close> raise the network or API error
  \<open>e\<close>. Then the handler records the log entry, notifies the error observers with
  \<open>rd\<close>, \<open>e\<close> and the traceback made from \<open>e\<close>, and calls \<^verbatim>\<open>set_paused(True)\<close>:
  the queue is paused and its observers are told so, while the queue, the store and the
  next id are untouched. The loop then goes on with the same \<open>rd\<close> from the pause
  check, where it now waits to be unpaused. Over the whole loop, every event recorded
  for the item (processing, submission, error) names \<open>rd\<close> and its url, data and
  files, and the queue only ever grows at its tail.
\<close>

theorem failed_submission_is_retried:
  assumes "pause_check tid env s = Done () env1 s1"
    and "\<not> skip_current s1"
    and "api_create (url rd) (data rd) (files rd) env1 (emit (Request_processing rd) s1)
           = Done (Raised e) env2 s2"
  shows "retry_loop tid rd env s = retry_loop tid rd env2 (on_api_error rd e s2) \<and>
         last (events s2) = Api_create (url rd) (data rd) (files rd) (Raised e) \<and>
         events (on_api_error rd e s2) =
           events s2 @ [Log Exception ''sender'' (''Could not send request: '' @ str_exc e),
                        Error_occurred rd e (TracebackException e),
                        Queue_paused True] \<and>
         paused (on_api_error rd e s2) \<and>
         queue (on_api_error rd e s2) = queue s2 \<and>
         heap (on_api_error rd e s2) = heap s2 \<and>
         id_snd (on_api_error rd e s2) = id_snd s2 \<and>
         pause_check tid env2 (on_api_error rd e s2) = wait_unpaused tid env2 (on_api_error rd e s2) \<and>
         grows (concerns rd) s (state_of (retry_loop tid rd env s))"
proof -
  let ?s3 = "on_api_error rd e s2"
  from api_create_Done [OF assms(3)]
  have 1: "last (events s2) = Api_create (url rd) (data rd) (files rd) (Raised e)"
    by (auto simp: emit_def)
  have 2: "retry_loop tid rd env s = retry_loop tid rd env2 ?s3"
    using assms by (simp add: retry_loop.simps [of tid rd env s])
  have 3: "events ?s3 =
             events s2 @ [Log Exception ''sender'' (''Could not send request: '' @ str_exc e),
                          Error_occurred rd e (TracebackException e),
                          Queue_paused True]"
    by (simp add: on_api_error_def set_paused_def emit_def Let_def)
  have 4: "paused ?s3" "queue ?s3 = queue s2" "heap ?s3 = heap s2" "id_snd ?s3 = id_snd s2"
    by (simp_all add: on_api_error_def set_paused_def emit_def Let_def)
  have 5: "pause_check tid env2 ?s3 = wait_unpaused tid env2 ?s3"
    using 4(1) by (simp add: pause_check_def)
  from 1 2 3 4 5 grows_retry_loop [where tid = tid and rd = rd and env = env and s = s] show ?thesis
    by blast
qed



theorem failed_submission_is_retried_witness:
  "retry_loop 0 example_request
     [Api_returns (Raised (APIError ''500'')), Set_paused False, Api_returns Created]
     (example_sender\<lparr>queue := []\<rparr>) =
   retry_loop 0 example_request [Set_paused False, Api_returns Created]
     (on_api_error example_request (APIError ''500'')
        (emit (Api_create ''/gps/'' 7 None (Raised (APIError ''500'')))
           (emit (Request_processing example_request) (example_sender\<lparr>queue := []\<rparr>)))) \<and>
   new_events example_sender
     (state_of (retry_loop 0 example_request
        [Api_returns (Raised (APIError ''500'')), Set_paused False, Api_returns Created]
        (example_sender\<lparr>queue := []\<rparr>))) =
     [Request_processing example_request,
      Api_create ''/gps/'' 7 None (Raised (APIError ''500'')),
      Log Exception ''sender'' ''Could not send request: 500'',
      Error_occurred example_request (APIError ''500'') (TracebackException (APIError ''500'')),
      Queue_paused True,
      Queue_paused False,
      Request_processing example_request,
      Api_create ''/gps/'' 7 None Created]"
proof -
  let ?s = "example_sender\<lparr>queue := []\<rparr>"
  let ?env = "[Api_returns (Raised (APIError ''500'')), Set_paused False, Api_returns Created]"
  let ?s2 = "emit (Api_create ''/gps/'' 7 None (Raised (APIError ''500'')))
               (emit (Request_processing example_request) ?s)"
  have h1: "pause_check 0 ?env ?s = Done () ?env ?s"
    by (simp add: sender_defs)
  have h2: "\<not> skip_current ?s"
    by (simp add: sender_defs)
  have h3: "api_create (url example_request) (data example_request) (files example_request) ?env
              (emit (Request_processing example_request) ?s)
            = Done (Raised (APIError ''500'')) [Set_paused False, Api_returns Created] ?s2"
    by (simp add: example_request_def)
  from failed_submission_is_retried [OF h1 h2 h3]
  have eq: "retry_loop 0 example_request ?env ?s =
            retry_loop 0 example_request [Set_paused False, Api_returns Created]
              (on_api_error example_request (APIError ''500'') ?s2)"
    by blast
  have "new_events example_sender
          (state_of (retry_loop 0 example_request [Set_paused False, Api_returns Created]
              (on_api_error example_request (APIError ''500'') ?s2))) =
     [Request_processing example_request,
      Api_create ''/gps/'' 7 None (Raised (APIError ''500'')),
      Log Exception ''sender'' ''Could not send request: 500'',
      Error_occurred example_request (APIError ''500'') (TracebackException (APIError ''500'')),
      Queue_paused True,
      Queue_paused False,
      Request_processing example_request,
      Api_create ''/gps/'' 7 None Created]"
    by (simp add: retry_loop.simps sender_defs new_events_def)
  with eq show ?thesis by simp
qed






















lemma new_events_frame [simp]: "new_events (s\<lparr>queue := q\<rparr>) s' = new_events s s'"
  by (simp add: new_events_def)












subsection \<open>Pausing\<close>

text \<open>
  C9, as the code has it. \<^verbatim>\<open>set_paused(b)\<close> sets the paused flag to \<open>b\<close> and notifies
  the paused observers with \<open>b\<close>, in every case. When it unpauses it calls
  \<^verbatim>\<open>notify()\<close>, which wakes one thread waiting on the unpaused condition, the one
  that has waited longest: the other waiters stay blocked. With at most one waiter, as
  with the single consumer thread of the sender worker, no thread is left waiting.
  Nothing else of the sender changes.
\<close>

theorem set_paused_sets_flag_and_wakes_one:
  "paused (set_paused b s) = b \<and>
   unpaused (set_paused b s) = (if b then unpaused s else drop 1 (unpaused s)) \<and>
   unpaused (set_paused False (s\<lparr>unpaused := [w]\<rparr>)) = [] \<and>
   events (set_paused b s) = events s @ [Queue_paused b] \<and>
   queue (set_paused b s) = queue s \<and>
   skip_current (set_paused b s) = skip_current s \<and>
   id_snd (set_paused b s) = id_snd s \<and>
   not_empty (set_paused b s) = not_empty s \<and>
   heap (set_paused b s) = heap s"
  by (simp add: set_paused_def emit_def notify_def Let_def drop_Suc split: list.splits)

text \<open>
  C9 as the spec states it, that unpausing wakes all waiting threads, fails when two
  threads wait: with the threads 1 and 2 blocked in \<^verbatim>\<open>unpaused.wait()\<close>,
  \<^verbatim>\<open>set_paused(False)\<close> wakes thread 1 and leaves thread 2 waiting, though the queue
  is no longer paused.
\<close>

theorem set_paused_wakes_all_counterexample:
  "paused two_consumers_waiting \<and>
   unpaused two_consumers_waiting = [1, 2] \<and>
   \<not> paused (set_paused False two_consumers_waiting) \<and>
   unpaused (set_paused False two_consumers_waiting) = [2]"
  by (simp add: two_consumers_waiting_def process_request_def pop_request.simps
        retry_loop.simps sender_defs state_of_def)

subsection \<open>The data of a request is the caller's dictionary\<close>

lemma getitem_setitem:
  "getitem (setitem a k v st) a' k' =
     (if a' = a \<and> k' = k then Some v else getitem st a' k')"
  by (simp add: getitem_def setitem_def update_conv')

text \<open>
  C10. \<^verbatim>\<open>add_request\<close> with \<^verbatim>\<open>append_timestamp\<close> true writes the key
  \<^verbatim>\<open>'timestamp'\<close> into the dictionary the caller passed, in place: the store changes
  at the caller's address \<open>d\<close> and nowhere else, and without \<^verbatim>\<open>append_timestamp\<close>
  it does not change at all. The queued request holds the address \<open>d\<close> itself, not a
  copy: what is later written through the queued request is read at \<open>d\<close>. Likewise the
  dispatcher writes \<^verbatim>\<open>'timestamp'\<close>, the time of the output line, into the dictionary
  that the parser returned, and queues a request that holds that same address.
\<close>

theorem add_request_aliases_data:
  "getitem (heap (add_request ts m u d f True cb s)) d ''timestamp'' = Some ts \<and>
   heap (add_request ts m u d f True cb s) = setitem d ''timestamp'' ts (heap s) \<and>
   heap (add_request ts m u d f False cb s) = heap s \<and>
   (\<forall>a k. (a, k) \<noteq> (d, ''timestamp'') \<longrightarrow>
      getitem (heap (add_request ts m u d f True cb s)) a k = getitem (heap s) a k) \<and>
   queue (add_request ts m u d f app cb s) =
     queue s @ [\<lparr>id_rd = id_snd s, module = m, url = u, data = d, files = f, callback = cb\<rparr>] \<and>
   data (last (queue (add_request ts m u d f app cb s))) = d \<and>
   getitem (setitem (data (last (queue (add_request ts m u d f app cb s)))) k v
              (heap (add_request ts m u d f app cb s))) d k = Some v \<and>
   (truthy_id (can_parse P line) = Some mid \<and>
    parse P \<lparr>message_id = mid, timestamp = now, raw_text = line\<rparr> (heap (sender p))
      = (Inr (Some a), st) \<and>
    st a \<noteq> [] \<longrightarrow>
      fst (parse_line_from (P # rest) now line p) = Returns \<and>
      heap (sender (snd (parse_line_from (P # rest) now line p)))
        = setitem a ''timestamp'' (VDatetime now) st \<and>
      getitem (heap (sender (snd (parse_line_from (P # rest) now line p)))) a ''timestamp''
        = Some (VDatetime now) \<and>
      queue (sender (snd (parse_line_from (P # rest) now line p)))
        = queue (sender p) @
            [\<lparr>id_rd = id_snd (sender p), module = class_name P, url = url_parser P,
              data = a, files = None, callback = None\<rparr>])"
  by (auto simp: add_request_alt emit_def Let_def getitem_setitem truthy_data_def emit_p_def)

theorem add_request_aliases_data_witness:
  "truthy_id (can_parse example_parser ''$GPGGA,1,2,3'') = Some ''GPGGA'' \<and>
   parse example_parser \<lparr>message_id = ''GPGGA'', timestamp = 5, raw_text = ''$GPGGA,1,2,3''\<rparr>
       (heap (sender (init_parser [example_parser] example_sender)))
     = (Inr (Some 20), (heap example_sender)(20 := [(''sentence'', VStr ''$GPGGA,1,2,3'')])) \<and>
   getitem (heap (sender (snd (parse_line_from [example_parser] 5 ''$GPGGA,1,2,3''
       (init_parser [example_parser] example_sender))))) 20 ''timestamp'' = Some (VDatetime 5) \<and>
   map data (queue (sender (snd (parse_line_from [example_parser] 5 ''$GPGGA,1,2,3''
       (init_parser [example_parser] example_sender))))) = [7, 20] \<and>
   getitem (heap example_sender) 7 ''timestamp'' = Some (VStr ''12:00:00'') \<and>
   getitem (heap example_sender) 7 ''lat'' = Some (VInt 50) \<and>
   map data (queue example_sender) = [7]"
proof -
  let ?ol = "\<lparr>message_id = ''GPGGA'', timestamp = 5, raw_text = ''$GPGGA,1,2,3''\<rparr>"
  let ?p = "init_parser [example_parser] example_sender"
  let ?st = "(heap example_sender)(20 := [(''sentence'', VStr ''$GPGGA,1,2,3'')])"
  have h1: "truthy_id (can_parse example_parser ''$GPGGA,1,2,3'') = Some ''GPGGA''"
    by (simp add: example_parser_def truthy_id_def)
  have h2: "parse example_parser ?ol (heap (sender ?p)) = (Inr (Some 20), ?st)"
    by (simp add: example_parser_def init_parser_def)
  have h3: "?st 20 \<noteq> []"
    by simp
  note T = add_request_aliases_data
    [of "VStr ''12:00:00''" "''GPS''" "''/gps/''" 7 None "Some 3" "init_sender example_store"
        True "''lat''" "VInt 50" example_parser "''$GPGGA,1,2,3''" "''GPGGA''" 5 ?p 20 ?st "[]"]
  from T h1 h2 h3
  have "getitem (heap (sender (snd (parse_line_from [example_parser] 5 ''$GPGGA,1,2,3'' ?p)))) 20
          ''timestamp'' = Some (VDatetime 5)"
    and "queue (sender (snd (parse_line_from [example_parser] 5 ''$GPGGA,1,2,3'' ?p)))
          = queue (sender ?p) @
            [\<lparr>id_rd = id_snd (sender ?p), module = class_name example_parser,
              url = url_parser example_parser, data = 20, files = None, callback = None\<rparr>]"
    by blast+
  moreover from T have "getitem (heap example_sender) 7 ''timestamp'' = Some (VStr ''12:00:00'')"
    unfolding example_sender_def by blast
  moreover have "getitem (heap example_sender) 7 ''lat'' = Some (VInt 50)"
    "map data (queue example_sender) = [7]" "queue (sender ?p) = queue example_sender"
    by (simp_all add: sender_defs getitem_def init_parser_def)
  ultimately show ?thesis
    using h1 h2 by simp
qed

section \<open>Properties of the line dispatcher\<close>

lemma parse_line_from_unclaimed_prefix:
  "\<forall>Q \<in> set before. truthy_id (can_parse Q line) = None \<Longrightarrow>
   parse_line_from (before @ ps) now line p = parse_line_from ps now line p"
  by (induction before) simp_all

text \<open>
  C4. Let \<open>P\<close> be the parser that claims the line: the parsers registered before it do
  not, and \<^verbatim>\<open>P.can_parse\<close> returns a truthy message id. If \<^verbatim>\<open>P.parse\<close> raises the
  ParseError \<open>e\<close>, then \<^verbatim>\<open>parse_line\<close> notifies the line-parse-failed observer with the
  output line and raises \<open>e\<close> with its parser name set to the class name of \<open>P\<close>. The
  parsers registered after \<open>P\<close> have no part in the result: it is the same whatever they
  are. Nothing is queued and no other observer is notified.
\<close>

theorem claimed_line_failure_is_final:
  assumes "parsers p = before @ P # rest"
    and "\<forall>Q \<in> set before. truthy_id (can_parse Q line) = None"
    and "truthy_id (can_parse P line) = Some mid"
    and "parse P \<lparr>message_id = mid, timestamp = now, raw_text = line\<rparr> (heap (sender p))
           = (Inl e, st)"
  shows "parse_line now line p =
           (Raises (e\<lparr>parser_name := Some (class_name P)\<rparr>),
            emit_p (Line_parse_failed \<lparr>message_id = mid, timestamp = now, raw_text = line\<rparr>)
              (p\<lparr>sender := (sender p)\<lparr>heap := st\<rparr>\<rparr>)) \<and>
         parse_line_from (before @ P # rest) now line p =
           parse_line_from (before @ [P]) now line p \<and>
         trace (snd (parse_line now line p)) =
           trace p @ [Line_parse_failed \<lparr>message_id = mid, timestamp = now, raw_text = line\<rparr>] \<and>
         queue (sender (snd (parse_line now line p))) = queue (sender p) \<and>
         events (sender (snd (parse_line now line p))) = events (sender p)"
  using assms
  by (simp add: parse_line_def parse_line_from_unclaimed_prefix emit_p_def)

theorem claimed_line_failure_is_final_witness:
  "parse_line 9 ''$GPGGA''
     (init_parser [example_parser\<lparr>can_parse := (\<lambda>l. None)\<rparr>, example_parser,
                   example_parser\<lparr>class_name := ''TelemetryParser'', parse := (\<lambda>ol st. (Inr None, st))\<rparr>] example_sender) =
     (Raises \<lparr>message = ''Malformed GPGGA sentence'', parser_name = Some ''GPSParser''\<rparr>,
      emit_p (Line_parse_failed \<lparr>message_id = ''GPGGA'', timestamp = 9, raw_text = ''$GPGGA''\<rparr>)
        (init_parser [example_parser\<lparr>can_parse := (\<lambda>l. None)\<rparr>, example_parser,
                      example_parser\<lparr>class_name := ''TelemetryParser'', parse := (\<lambda>ol st. (Inr None, st))\<rparr>] example_sender))"
proof -
  let ?ps = "[example_parser\<lparr>can_parse := (\<lambda>l. None)\<rparr>, example_parser,
              example_parser\<lparr>class_name := ''TelemetryParser'', parse := (\<lambda>ol st. (Inr None, st))\<rparr>]"
  let ?p = "init_parser ?ps example_sender"
  have h1: "parsers ?p = [example_parser\<lparr>can_parse := (\<lambda>l. None)\<rparr>] @ example_parser #
              [example_parser\<lparr>class_name := ''TelemetryParser'', parse := (\<lambda>ol st. (Inr None, st))\<rparr>]"
    by (simp add: init_parser_def)
  have h2: "\<forall>Q \<in> set [example_parser\<lparr>can_parse := (\<lambda>l. None)\<rparr>].
              truthy_id (can_parse Q ''$GPGGA'') = None"
    by (simp add: truthy_id_def)
  have h3: "truthy_id (can_parse example_parser ''$GPGGA'') = Some ''GPGGA''"
    by (simp add: example_parser_def truthy_id_def)
  have h4: "parse example_parser \<lparr>message_id = ''GPGGA'', timestamp = 9, raw_text = ''$GPGGA''\<rparr>
              (heap (sender ?p))
            = (Inl \<lparr>message = ''Malformed GPGGA sentence'', parser_name = None\<rparr>, heap (sender ?p))"
    by (simp add: example_parser_def)
  from claimed_line_failure_is_final [OF h1 h2 h3 h4]
  show ?thesis
    by (simp add: example_parser_def)
qed

text \<open>
  C5. If no registered parser returns a truthy message id for the line, then
  \<^verbatim>\<open>parse_line\<close> raises the ParseError \<^verbatim>\<open>'Line was not parsed by any parser'\<close> with
  no parser name and leaves the parser as it was: no observer is notified and nothing
  is queued. The driving loop, reading that line, catches the error, logs it with its own
  logger and goes on with the next read.
\<close>

theorem unparsed_line_is_logged_and_skipped:
  assumes "\<forall>Q \<in> set (parsers p). truthy_id (can_parse Q line) = None"
  shows "parse_line now line p =
           (Raises \<lparr>message = ''Line was not parsed by any parser'', parser_name = None\<rparr>, p) \<and>
         (\<not> is_terminated p \<and> raw \<noteq> [] \<and> rstrip_crlf raw = line \<and> line \<noteq> [] \<longrightarrow>
            parse_file_loop (Readline raw now # evs) p =
              parse_file_loop evs
                (emit_p (Log Exception ''Parser''
                           (''Could not parse line: '' @ line @
                            '' (Line was not parsed by any parser)'')) p))"
proof -
  have "parse_line now line p =
          (Raises \<lparr>message = ''Line was not parsed by any parser'', parser_name = None\<rparr>, p)"
    using parse_line_from_unclaimed_prefix [OF assms, of "[]" now p]
    by (simp add: parse_line_def)
  then show ?thesis
    by (simp add: logger_of_def)
qed

theorem unparsed_line_is_logged_and_skipped_witness:
  "parse_line 7 ''garbage'' (init_parser [example_parser] example_sender) =
     (Raises \<lparr>message = ''Line was not parsed by any parser'', parser_name = None\<rparr>,
      init_parser [example_parser] example_sender) \<and>
   parse_file_loop [Readline (''garbage'' @ [CHR 0x0D, CHR 0x0A]) 7, Readline [] 8]
       (init_parser [example_parser] example_sender) =
     (Running,
      (init_parser [example_parser] example_sender)
        \<lparr>trace := [Log Exception ''Parser''
                      ''Could not parse line: garbage (Line was not parsed by any parser)'',
                    Sleep 50]\<rparr>)"
proof -
  let ?p = "init_parser [example_parser] example_sender"
  have h: "\<forall>Q \<in> set (parsers ?p). truthy_id (can_parse Q ''garbage'') = None"
    by (simp add: init_parser_def example_parser_def truthy_id_def)
  have r: "rstrip_crlf (''garbage'' @ [CHR 0x0D, CHR 0x0A]) = ''garbage''"
    by (simp add: rstrip_crlf_def)
  have t: "\<not> is_terminated ?p" "trace ?p = []"
    by (simp_all add: init_parser_def)
  from unparsed_line_is_logged_and_skipped
         [OF h, of 7 "''garbage'' @ [CHR 0x0D, CHR 0x0A]" "[Readline [] 8]"] r t
  show ?thesis
    by (simp add: emit_p_def)
qed

section \<open>Properties of the tail reader\<close>

lemma is_terminated_emit_p [simp]: "is_terminated (emit_p e p) = is_terminated p"
  by (simp add: emit_p_def)

lemma is_terminated_parse_line_from [simp]:
  "is_terminated (snd (parse_line_from ps now line p)) = is_terminated p"
  by (induction ps)
     (auto simp: Let_def emit_p_def split: option.splits prod.splits sum.splits)

lemma is_terminated_parse_line [simp]:
  "is_terminated (snd (parse_line now line p)) = is_terminated p"
  by (simp add: parse_line_def)





section \<open>The parser manager on given calls\<close>

text \<open>The definitions that evaluate calls on a given manager.\<close>

lemmas manager_defs = manager_parse_file_def is_running_def init_manager_def log_m_def
  terminate_def on_parser_terminated_def worker_thread_def run_def parse_file_def
  example_resolve_def example_os_open_def init_parser_def mark_terminated_def emit_p_def
  base_output_parser.defs qt_output_parser_worker.defs Let_def

text \<open>
  C3, on the code. With no worker running and a path that \<^verbatim>\<open>Path.resolve\<close> does not
  find, \<^verbatim>\<open>ParserManager.parse_file\<close> catches the FileNotFoundError, logs it and
  returns normally: no worker is created, and nothing is raised to the caller. With a
  worker running it raises the RuntimeError.
\<close>

theorem manager_parse_file_returns_on_missing_file:
  "manager_parse_file [example_parser] example_resolve ''missing.log''
     (init_manager (init_sender example_store)) =
   Inr (init_manager (init_sender example_store)
          \<lparr>log_pm := [Log Exception ''Parser''
             ''Parser start failed: could not find data file ([Errno 2] No such file or directory: missing.log)'']\<rparr>) \<and>
   manager_parse_file [example_parser] example_resolve ''probe.log''
     (manager_calls [example_parser] example_resolve example_os_open [Parse_file ''probe.log'']
        (init_manager (init_sender example_store))) =
   Inl (RuntimeError ''The worker is already running'')"
  by (simp add: manager_defs)

text \<open>
  C8, on the code. A first worker is started and stopped by \<^verbatim>\<open>terminate\<close>, and its
  exit is logged as the user's. A second worker is started on a file that cannot be
  opened: its \<^verbatim>\<open>run\<close> logs the OSError and returns, without any call of
  \<^verbatim>\<open>terminate\<close>, and the manager logs this exit as the user's as well:
  \<^verbatim>\<open>terminated_by_user\<close> is never set back to false.
\<close>

theorem user_stop_is_reported_for_a_later_worker:
  "log_pm (manager_calls [example_parser] example_resolve example_os_open
      [Parse_file ''probe.log'', Terminate, Worker_runs [],
       Parse_file ''locked.log'', Worker_runs []]
      (init_manager (init_sender example_store))) =
     [Log Info ''Parser'' ''Starting parser: /data/probe.log'',
      Parser_started,
      Log Info ''Parser'' ''Parser was terminated by the user'',
      Parser_terminated,
      Log Info ''Parser'' ''Starting parser: /data/locked.log'',
      Parser_started,
      Log Info ''Parser'' ''Parser was terminated by the user'',
      Parser_terminated] \<and>
   map_option trace (worker (manager_calls [example_parser] example_resolve example_os_open
      [Parse_file ''probe.log'', Terminate, Worker_runs [],
       Parse_file ''locked.log'', Worker_runs []]
      (init_manager (init_sender example_store)))) =
     Some [Log Exception ''Parser''
             ''Could not parse file ([Errno 13] Permission denied: /data/locked.log)'']"
  by (simp add: manager_defs)

end
